theory Spec2Isabelle
  imports Main "HOL-Library.AList"
begin

section \<open>Values, errors and outcomes\<close>

text \<open>
  The JavaScript values the library handles. Numbers are kept as integers (the library never
  computes with them). \<open>ObjRef a\<close> is a reference to the object stored at address \<open>a\<close>,
  and \<open>Proxy a\<close> is the reactive wrapper that the engine returns for that object: a
  reference of its own, not equal to \<open>ObjRef a\<close>.
  \<open>BindingGet a k\<close> and \<open>BindingSet a k\<close> are the two closures that \<open>bindable\<close> creates
  for the property \<open>k\<close> of the object at \<open>a\<close>; they are the function values of the model.
\<close>

datatype jsval =
    Undefined
  | Null
  | Bool bool
  | Num int
  | Str string
  | ObjRef nat
  | Proxy nat
  | BindingGet nat string
  | BindingSet nat string

text \<open>
  What the code throws: \<open>new Error(message)\<close>, and the runtime's own \<open>TypeError\<close>
  (a property of \<open>undefined\<close> is read, a non-writable property is assigned in strict
  mode, a non-configurable property is redefined).
\<close>

datatype error = Error string | TypeError

datatype 'a outcome = Return 'a | Throw error

section \<open>The tracking facade\<close>

subsection \<open>The reactive engine's tracking state\<close>

text \<open>
  The part of the external engine that \<open>ignoringObservation\<close> and
  \<open>withObservationTracking\<close> drive: whether dependency recording is on, the flags saved
  by the pauses still open, the tracked function that is running (tracked functions are
  numbered as \<open>effect\<close> registers them), the cells recorded as dependencies of each tracked
  function, the number of the next tracked function, and the console the callbacks write to.
\<close>

record runtime =
  shouldTrack :: bool
  trackStack :: "bool list"
  activeEffect :: "nat option"
  deps :: "nat \<Rightarrow> nat list"
  nextEffect :: nat
  console :: "string list"

type_synonym 'a comp = "runtime \<Rightarrow> 'a outcome \<times> runtime"

definition idle :: runtime where
  \<comment> \<open>The engine of a program that has registered nothing: recording is on and no tracked
     function is running.\<close>
  "idle =
     \<lparr>shouldTrack = True, trackStack = [], activeEffect = None, deps = (\<lambda>e. []),
      nextEffect = 0, console = []\<rparr>"

definition pauseTracking :: "runtime \<Rightarrow> runtime" where
  \<comment> \<open>Modelled from the spec: the engine's \<open>pauseTracking()\<close> (the package @vue/reactivity is
     not under src/) suspends dependency recording; the flag it replaces is saved for the
     matching resume.\<close>
  "pauseTracking s = s\<lparr>trackStack := shouldTrack s # trackStack s, shouldTrack := False\<rparr>"

definition resetTracking :: "runtime \<Rightarrow> runtime" where
  \<comment> \<open>Modelled from the spec: the engine's resume, imported as \<open>resetTracking()\<close>: recording
     goes back to the flag saved by the latest open pause, and is on when none is open.\<close>
  "resetTracking s =
     (case trackStack s of
        [] \<Rightarrow> s\<lparr>shouldTrack := True\<rparr>
      | b # bs \<Rightarrow> s\<lparr>trackStack := bs, shouldTrack := b\<rparr>)"

definition track :: "nat \<Rightarrow> runtime \<Rightarrow> runtime" where
  \<comment> \<open>Modelled from the spec: a read of the reactive cell \<open>c\<close>; it is recorded as a
     dependency of the tracked function that is running, when one is running and recording
     is not suspended.\<close>
  "track c s =
     (if shouldTrack s
      then (case activeEffect s of
              None \<Rightarrow> s
            | Some e \<Rightarrow> s\<lparr>deps := (deps s)(e := List.insert c (deps s e))\<rparr>)
      else s)"

definition run :: "nat \<Rightarrow> 'a comp \<Rightarrow> 'a comp" where
  \<comment> \<open>Modelled from the spec: one run of the tracked function number \<open>e\<close>: recording is
     switched on and the dependencies of \<open>e\<close> are collected afresh; the running function and
     the flag of the caller come back afterwards. The dependencies of the other tracked
     functions are not touched.\<close>
  "run e fn s =
     (case fn (s\<lparr>activeEffect := Some e, shouldTrack := True, deps := (deps s)(e := [])\<rparr>) of
        (r, s1) \<Rightarrow> (r, s1\<lparr>activeEffect := activeEffect s, shouldTrack := shouldTrack s\<rparr>))"

definition effect :: "'a comp \<Rightarrow> 'a comp" where
  \<comment> \<open>Modelled from the spec: \<open>effect(fn)\<close> registers \<open>fn\<close> as a new tracked function, number
     \<open>nextEffect s\<close>, and runs it now; its later runs are \<open>trigger\<close>.\<close>
  "effect fn s = run (nextEffect s) fn (s\<lparr>nextEffect := Suc (nextEffect s)\<rparr>)"

definition trigger :: "nat \<Rightarrow> 'a comp \<Rightarrow> nat \<Rightarrow> runtime \<Rightarrow> bool \<times> runtime" where
  \<comment> \<open>Modelled from the spec: the cell \<open>c\<close> is written from outside; the engine runs the
     tracked function \<open>fn\<close>, number \<open>e\<close>, again when \<open>c\<close> is one of the dependencies of its
     latest run. The boolean says whether it ran.\<close>
  "trigger e fn c s = (if c \<in> set (deps s e) then (True, snd (run e fn s)) else (False, s))"

subsection \<open>ignoringObservation and withObservationTracking\<close>

text \<open>
  \<^verbatim>\<open>
  export function ignoringObservation<T>(nonReactiveReadsFunc: () => T): T {
      pauseTracking()
      const value = nonReactiveReadsFunc()
      resetTracking()
      return value
  }
  \<close>
  An exception of the callback leaves the function at the call: nothing after it runs.
\<close>

definition ignoringObservation :: "'a comp \<Rightarrow> 'a comp" where
  "ignoringObservation nonReactiveReadsFunc s =
     (case nonReactiveReadsFunc (pauseTracking s) of
        (Throw e, s1) \<Rightarrow> (Throw e, s1)
      | (Return v, s1) \<Rightarrow> (Return v, resetTracking s1))"

text \<open>
  \<^verbatim>\<open>
  effect(() => {
      if (onChange) ignoringObservation(onChange)
      return apply()
  })
  \<close>
  \<open>effectFn\<close> is the arrow function handed to the engine; an absent \<open>onChange\<close> is \<open>None\<close>.
\<close>

definition effectFn :: "'a comp \<Rightarrow> 'b comp option \<Rightarrow> 'a comp" where
  "effectFn apply onChange s =
     (case onChange of
        None \<Rightarrow> apply s
      | Some f \<Rightarrow>
          (case ignoringObservation f s of
             (Throw e, s1) \<Rightarrow> (Throw e, s1)
           | (Return _, s1) \<Rightarrow> apply s1))"

definition withObservationTracking :: "'a comp \<Rightarrow> 'b comp option \<Rightarrow> unit comp" where
  "withObservationTracking apply onChange s =
     (case effect (effectFn apply onChange) s of
        (Throw e, s1) \<Rightarrow> (Throw e, s1)
      | (Return _, s1) \<Rightarrow> (Return (), s1))"

subsection \<open>Callbacks\<close>

text \<open>
  What a client callback does, as far as the engine and an observer can see: it reads
  reactive cells, writes lines to the console, and may throw. It returns \<open>undefined\<close>.
\<close>

datatype action = Read nat | Emit string | Raise error

fun exec :: "action list \<Rightarrow> jsval comp" where
  "exec [] s = (Return Undefined, s)"
| "exec (Read c # as) s = exec as (track c s)"
| "exec (Emit m # as) s = exec as (s\<lparr>console := console s @ [m]\<rparr>)"
| "exec (Raise e # as) s = (Throw e, s)"

fun raises :: "action list \<Rightarrow> bool" where
  "raises [] = False"
| "raises (Raise e # as) = True"
| "raises (a # as) = raises as"

fun reads :: "action list \<Rightarrow> nat list" where
  "reads [] = []"
| "reads (Read c # as) = c # reads as"
| "reads (Emit m # as) = reads as"
| "reads (Raise e # as) = []"

fun emitted :: "action list \<Rightarrow> string list" where
  "emitted [] = []"
| "emitted (Read c # as) = emitted as"
| "emitted (Emit m # as) = m # emitted as"
| "emitted (Raise e # as) = []"

section \<open>Objects and the reactive cells behind them\<close>

subsection \<open>The store\<close>

text \<open>
  A symbol is its identity and its description: \<open>Symbol()\<close> returns a new identity at
  every call. A backing cell is what the engine's \<open>reactive\<close> or \<open>ref\<close> returned:
  \<open>Reactive w\<close> holds the value \<open>w\<close> that \<open>reactive\<close> returned, and \<open>Ref r\<close> is a reference to
  the mutable cell \<open>r\<close> of the engine.
\<close>

datatype symbol = Symbol nat string

datatype cell = Reactive jsval | Ref nat

text \<open>
  A string-named own property is a data property (value, writable, enumerable,
  configurable) or the accessor pair that the \<open>Observed\<close> constructor defines: its getter
  and setter close over \<open>backingRef\<close>, so the pair is named by that symbol, with its
  enumerable and configurable attributes. The only symbol-named properties the library
  touches are the hidden slots it defines itself; an object keeps them in \<open>slots\<close>.
  Both lists are in insertion order; \<open>getOwnPropertyNames\<close> gives the order in which the
  language lists the keys. The prototype chain is not modelled: every property the library
  reads or writes is an own property.
\<close>

datatype property = Data jsval bool bool bool | Accessor symbol bool bool

record obj =
  props :: "(string \<times> property) list"
  slots :: "(symbol \<times> cell) list"

text \<open>
  The store: the objects by address (an address not yet allocated holds the empty object),
  the engine's ref cells by identity, the counters that give fresh addresses, cells and
  symbols, and the metadata object of the decorated class: \<open>None\<close> when the runtime gives
  the class no metadata object, \<open>Some None\<close> when the object has no ignore list yet.
\<close>

record store =
  objects :: "nat \<Rightarrow> obj"
  nextObject :: nat
  cells :: "nat \<Rightarrow> jsval"
  nextCell :: nat
  nextSymbol :: nat
  metadata :: "string list option option"

type_synonym 'a action_on_store = "store \<Rightarrow> 'a outcome \<times> store"

subsection \<open>What the language does\<close>

fun typeof :: "jsval \<Rightarrow> string" where
  "typeof Undefined = ''undefined''"
| "typeof Null = ''object''"
| "typeof (Bool b) = ''boolean''"
| "typeof (Num n) = ''number''"
| "typeof (Str s) = ''string''"
| "typeof (ObjRef a) = ''object''"
| "typeof (Proxy a) = ''object''"
| "typeof (BindingGet a k) = ''function''"
| "typeof (BindingSet a k) = ''function''"

fun descriptorValue :: "property \<Rightarrow> jsval" where
  \<comment> \<open>\<open>descriptor.value\<close>: an accessor's descriptor has no \<open>value\<close>.\<close>
  "descriptorValue (Data v w e c) = v"
| "descriptorValue (Accessor b e c) = Undefined"

fun enumerable :: "property \<Rightarrow> bool" where
  "enumerable (Data v w e c) = e"
| "enumerable (Accessor b e c) = e"

fun configurable :: "property \<Rightarrow> bool" where
  "configurable (Data v w e c) = c"
| "configurable (Accessor b e c) = c"

text \<open>
  The own string keys of an object are listed with the array indices first, in ascending
  numeric order, and the other keys after them in insertion order. An array index is the
  decimal numeral, without leading zero, of an integer below \<open>2^32 - 1\<close>.
\<close>

definition isDigit :: "char \<Rightarrow> bool" where
  "isDigit c = (c \<in> set ''0123456789'')"

definition digitValue :: "char \<Rightarrow> nat" where
  \<comment> \<open>The place of a digit among the ten digits.\<close>
  "digitValue c = length (takeWhile (\<lambda>d. d \<noteq> c) ''0123456789'')"

definition numericValue :: "string \<Rightarrow> nat" where
  "numericValue k = foldl (\<lambda>n c. 10 * n + digitValue c) 0 k"

definition isArrayIndex :: "string \<Rightarrow> bool" where
  "isArrayIndex k =
     (case k of
        [] \<Rightarrow> False
      | c # cs \<Rightarrow>
          list_all isDigit k \<and> (cs = [] \<or> c \<noteq> CHR ''0'') \<and> numericValue k < 4294967295)"

definition getOwnPropertyNames :: "obj \<Rightarrow> string list" where
  "getOwnPropertyNames ob =
     sort_key numericValue (filter isArrayIndex (map fst (props ob)))
     @ filter (\<lambda>k. \<not> isArrayIndex k) (map fst (props ob))"

definition getOwnPropertyDescriptor :: "obj \<Rightarrow> string \<Rightarrow> property option" where
  "getOwnPropertyDescriptor ob k = map_of (props ob) k"

definition newSymbol :: "string \<Rightarrow> store \<Rightarrow> symbol \<times> store" where
  "newSymbol description s =
     (Symbol (nextSymbol s) description, s\<lparr>nextSymbol := Suc (nextSymbol s)\<rparr>)"

definition alloc :: "obj \<Rightarrow> store \<Rightarrow> nat \<times> store" where
  "alloc ob s =
     (nextObject s,
      s\<lparr>objects := (objects s)(nextObject s := ob), nextObject := Suc (nextObject s)\<rparr>)"

subsection \<open>The engine's cells\<close>

fun toReactive :: "jsval \<Rightarrow> jsval" where
  \<comment> \<open>Modelled from the spec: the engine's wrapping of a value (not under src/): an object
     is wrapped, and what comes back is the wrapper, a reference of its own; a wrapper and
     a value that is not an object come back as they are.\<close>
  "toReactive (ObjRef a) = Proxy a"
| "toReactive v = v"

definition reactive :: "jsval \<Rightarrow> cell" where
  \<comment> \<open>Modelled from the spec: the engine's \<open>reactive(value)\<close> (not under src/) returns the
     wrapped object.\<close>
  "reactive v = Reactive (toReactive v)"

definition ref :: "jsval \<Rightarrow> store \<Rightarrow> cell \<times> store" where
  \<comment> \<open>Modelled from the spec: the engine's \<open>ref(initial)\<close> (not under src/) returns a new
     mutable cell with a \<open>.value\<close> accessor; the cell wraps an object value deeply (it is
     the shallow ref that does not).\<close>
  "ref v s =
     (Ref (nextCell s),
      s\<lparr>cells := (cells s)(nextCell s := toReactive v), nextCell := Suc (nextCell s)\<rparr>)"

fun isRef :: "cell option \<Rightarrow> bool" where
  \<comment> \<open>Modelled from the spec: the engine's \<open>isRef(x)\<close>; \<open>None\<close> is a slot that is
     \<open>undefined\<close>.\<close>
  "isRef (Some (Ref r)) = True"
| "isRef _ = False"

fun refValue :: "cell option \<Rightarrow> store \<Rightarrow> jsval" where
  \<comment> \<open>Modelled from the spec: reading \<open>.value\<close> of a ref cell.\<close>
  "refValue (Some (Ref r)) s = cells s r"
| "refValue _ s = Undefined"

fun setRefValue :: "cell option \<Rightarrow> jsval \<Rightarrow> store \<Rightarrow> store" where
  \<comment> \<open>Modelled from the spec: assigning \<open>.value\<close> of a ref cell; an object value is
     wrapped, as in \<open>ref\<close>.\<close>
  "setRefValue (Some (Ref r)) v s = s\<lparr>cells := (cells s)(r := toReactive v)\<rparr>"
| "setRefValue _ v s = s"

fun wrapped :: "cell option \<Rightarrow> jsval" where
  \<comment> \<open>The content of a slot that is not a ref cell, as a value: what \<open>reactive\<close>
     returned; a slot that does not exist is \<open>undefined\<close>.\<close>
  "wrapped (Some (Reactive w)) = w"
| "wrapped _ = Undefined"

subsection \<open>The accessor pair of the Observed constructor\<close>

text \<open>
  \<^verbatim>\<open>
  get() {
      let instance: unknown = this[backingRef]
      return isRef(instance) ? instance.value : instance
  },
  set(v) {
      let instance: unknown = this[backingRef]
      if (isRef(instance)) {
          instance.value = v
      } else {
          this[backingRef] = reactive(v)
      }
  },
  \<close>
  The slot is writable, so the assignment to \<open>this[backingRef]\<close> replaces its content.
\<close>

definition getter :: "symbol \<Rightarrow> nat \<Rightarrow> store \<Rightarrow> jsval" where
  "getter backingRef this s =
     (let instance = map_of (slots (objects s this)) backingRef
      in if isRef instance then refValue instance s else wrapped instance)"

definition setter :: "symbol \<Rightarrow> nat \<Rightarrow> jsval \<Rightarrow> store \<Rightarrow> store" where
  "setter backingRef this v s =
     (let instance = map_of (slots (objects s this)) backingRef
      in if isRef instance then setRefValue instance v s
         else s\<lparr>objects := (objects s)(this := (objects s this)
                \<lparr>slots := AList.update backingRef (reactive v) (slots (objects s this))\<rparr>)\<rparr>)"

subsection \<open>Reading and assigning a property\<close>

definition jsGet :: "nat \<Rightarrow> string \<Rightarrow> store \<Rightarrow> jsval" where
  \<comment> \<open>\<open>obj[k]\<close> for the object at \<open>a\<close>.\<close>
  "jsGet a k s =
     (case map_of (props (objects s a)) k of
        None \<Rightarrow> Undefined
      | Some (Data v w e c) \<Rightarrow> v
      | Some (Accessor b e c) \<Rightarrow> getter b a s)"

definition jsSet :: "nat \<Rightarrow> string \<Rightarrow> jsval \<Rightarrow> unit action_on_store" where
  \<comment> \<open>\<open>obj[k] = v\<close> in strict mode (the file is a module): a new property is a plain data
     property, a non-writable one throws.\<close>
  "jsSet a k v s =
     (case map_of (props (objects s a)) k of
        None \<Rightarrow>
          (Return (),
           s\<lparr>objects := (objects s)(a := (objects s a)
                \<lparr>props := AList.update k (Data v True True True) (props (objects s a))\<rparr>)\<rparr>)
      | Some (Data v0 w e c) \<Rightarrow>
          (if w
           then (Return (),
                 s\<lparr>objects := (objects s)(a := (objects s a)
                      \<lparr>props := AList.update k (Data v w e c) (props (objects s a))\<rparr>)\<rparr>)
           else (Throw TypeError, s))
      | Some (Accessor b e c) \<Rightarrow> (Return (), setter b a v s))"

subsection \<open>The decorators\<close>

text \<open>
  \<^verbatim>\<open>
  export function ObservationIgnored(_target: any, context: PropertyContext) {
      if (typeof context.name === "symbol") {
          throw new Error("@ObservationIgnored cannot be applied to symbol-named properties.")
      }
      const metadata = (context as any).metadata
      const ignoredProps: string[] = (metadata[ObservationIgnoredSymbol] ??= [])
      ignoredProps.push(context.name)
  }
  \<close>
  \<open>context.metadata\<close> is the metadata object of the class, kept in the store. The spec
  calls the first error \<open>InvalidPropertyKind\<close> and the error of \<open>Observable\<close>
  \<open>InvalidTargetKind\<close>.
\<close>

datatype memberName = StringName string | SymbolName symbol

definition InvalidPropertyKind :: error where
  "InvalidPropertyKind = Error ''@ObservationIgnored cannot be applied to symbol-named properties.''"

definition InvalidTargetKind :: error where
  "InvalidTargetKind = Error ''@Observable must be applied to a class.''"

definition ignoredPropsOf :: "string list option \<Rightarrow> string list" where
  \<comment> \<open>\<open>metadata[ObservationIgnoredSymbol] ??= []\<close>, the list it evaluates to.\<close>
  "ignoredPropsOf entry = (case entry of None \<Rightarrow> [] | Some l \<Rightarrow> l)"

definition ObservationIgnored :: "memberName \<Rightarrow> unit action_on_store" where
  "ObservationIgnored name s =
     (case name of
        SymbolName b \<Rightarrow> (Throw InvalidPropertyKind, s)
      | StringName n \<Rightarrow>
          (case metadata s of
             None \<Rightarrow> (Throw TypeError, s)
           | Some entry \<Rightarrow> (Return (), s\<lparr>metadata := Some (Some (ignoredPropsOf entry @ [n]))\<rparr>)))"

datatype decoratorKind = ClassKind | MethodKind | GetterKind | SetterKind | FieldKind | AccessorKind

text \<open>
  One turn of the loop of the \<open>Observed\<close> constructor, for a property that is not ignored:
  \<^verbatim>\<open>
  let initialValue = Object.getOwnPropertyDescriptor(this, prop)!
  let backingRef = Symbol(`__$$${prop}`)
  Object.defineProperty(this, backingRef, {
      value:
          typeof initialValue.value === "object" || initialValue.value === "undefined"
              ? reactive(initialValue.value)
              : ref(initialValue.value),
      writable: true,
  })
  Object.defineProperty(this, prop, { get() {...}, set(v) {...} })
  \<close>
  \<open>defineProperty\<close> with a new key adds the property (the slot: writable, not enumerable,
  not configurable); with the key of a configurable property it replaces the property and
  keeps the attributes the descriptor does not give; with the key of a non-configurable
  property it throws a \<open>TypeError\<close> here, since the new getter is a new function.
  A descriptor that is \<open>undefined\<close> has no \<open>value\<close> to read: a \<open>TypeError\<close> (the names
  come from the object, so this does not happen in the loop).
\<close>

definition defineSlot :: "nat \<Rightarrow> symbol \<Rightarrow> cell \<Rightarrow> store \<Rightarrow> store" where
  "defineSlot this backingRef c s =
     s\<lparr>objects := (objects s)(this := (objects s this)
          \<lparr>slots := AList.update backingRef c (slots (objects s this))\<rparr>)\<rparr>"

definition defineAccessor :: "nat \<Rightarrow> string \<Rightarrow> symbol \<Rightarrow> unit action_on_store" where
  "defineAccessor this prop backingRef s =
     (case map_of (props (objects s this)) prop of
        None \<Rightarrow>
          (Return (),
           s\<lparr>objects := (objects s)(this := (objects s this)
                \<lparr>props := AList.update prop (Accessor backingRef False False)
                             (props (objects s this))\<rparr>)\<rparr>)
      | Some d \<Rightarrow>
          (if configurable d
           then (Return (),
                 s\<lparr>objects := (objects s)(this := (objects s this)
                      \<lparr>props := AList.update prop (Accessor backingRef (enumerable d) True)
                                   (props (objects s this))\<rparr>)\<rparr>)
           else (Throw TypeError, s)))"

definition wrapProperty :: "nat \<Rightarrow> string \<Rightarrow> unit action_on_store" where
  "wrapProperty this prop s =
     (let initialValue = getOwnPropertyDescriptor (objects s this) prop
      in case newSymbol (''__$$'' @ prop) s of
           (backingRef, s1) \<Rightarrow>
             (case initialValue of
                None \<Rightarrow> (Throw TypeError, s1)
              | Some d \<Rightarrow>
                  (case (if typeof (descriptorValue d) = ''object''
                            \<or> descriptorValue d = Str ''undefined''
                         then (reactive (descriptorValue d), s1)
                         else ref (descriptorValue d) s1) of
                     (c, s2) \<Rightarrow>
                       defineAccessor this prop backingRef (defineSlot this backingRef c s2))))"

text \<open>
  \<^verbatim>\<open>
  for (const prop of properties) {
      if (ignoredProps.includes(prop)) continue
      ...
  }
  \<close>
\<close>

fun wrapProperties :: "nat \<Rightarrow> string list \<Rightarrow> string list \<Rightarrow> unit action_on_store" where
  "wrapProperties this ignoredProps [] s = (Return (), s)"
| "wrapProperties this ignoredProps (prop # properties) s =
     (if prop \<in> set ignoredProps then wrapProperties this ignoredProps properties s
      else (case wrapProperty this prop s of
              (Throw e, s1) \<Rightarrow> (Throw e, s1)
            | (Return _, s1) \<Rightarrow> wrapProperties this ignoredProps properties s1))"

text \<open>
  The constructor after \<open>super(...args)\<close> has returned \<open>this\<close>:
  \<^verbatim>\<open>
  const prototype = Object.getPrototypeOf(this)
  const metadata = prototype.constructor[(Symbol as any).metadata]
  const ignoredProps: string[] = (metadata[ObservationIgnoredSymbol] ??= [])
  const properties = Object.getOwnPropertyNames(this)
  for (const prop of properties) { ... }
  \<close>
  Reading the ignore list of a class without metadata object throws a \<open>TypeError\<close>
  (the spec's \<open>MissingMetadataContainer\<close>).
\<close>

definition wrappingPass :: "nat \<Rightarrow> unit action_on_store" where
  "wrappingPass this s =
     (case metadata s of
        None \<Rightarrow> (Throw TypeError, s)
      | Some entry \<Rightarrow>
          wrapProperties this (ignoredPropsOf entry) (getOwnPropertyNames (objects s this))
            (s\<lparr>metadata := Some (Some (ignoredPropsOf entry))\<rparr>))"

text \<open>
  A class is its constructor: from the arguments and the store to the address of the new
  instance. \<open>Observable\<close> returns the class \<open>Observed\<close> that extends its target.
  \<^verbatim>\<open>
  if (context.kind !== "class") {
      throw new Error("@Observable must be applied to a class.")
  }
  return class Observed extends _target {
      constructor(...args: any[]) {
          super(...args)
          ...
      }
  }
  \<close>
\<close>

type_synonym 'args constructor = "'args \<Rightarrow> nat action_on_store"

definition Observed :: "'args constructor \<Rightarrow> 'args constructor" where
  "Observed target args s =
     (case target args s of
        (Throw e, s1) \<Rightarrow> (Throw e, s1)
      | (Return this, s1) \<Rightarrow>
          (case wrappingPass this s1 of
             (Throw e, s2) \<Rightarrow> (Throw e, s2)
           | (Return _, s2) \<Rightarrow> (Return this, s2)))"

definition Observable :: "'args constructor \<Rightarrow> decoratorKind \<Rightarrow> ('args constructor) outcome" where
  "Observable target kind =
     (if kind \<noteq> ClassKind then Throw InvalidTargetKind else Return (Observed target))"

subsection \<open>Binding and bindable\<close>

text \<open>
  \<^verbatim>\<open>
  export function bindable<Value extends object>(observable: Value): Bindable<Value> {
      return Object.assign(
          observable,
          Object.getOwnPropertyNames(observable).map(key => ({
              [`$${key}`]: new Binding({
                  get() { return (observable as any)[key] },
                  set(v) { ;(observable as any)[key] = v },
              }),
          }))
      ) as Bindable<Value>
  }
  \<close>
  The second argument of \<open>Object.assign\<close> is the array that \<open>map\<close> returns, one object,
  not the elements of the array: \<open>Object.assign\<close> copies the enumerable own properties of
  that array, whose keys are the indices.
\<close>

definition plain :: "jsval \<Rightarrow> property" where
  \<comment> \<open>The property an object literal, a class field or an assignment creates.\<close>
  "plain v = Data v True True True"

definition Binding :: "nat \<Rightarrow> store \<Rightarrow> nat \<times> store" where
  \<comment> \<open>\<open>new Binding(init)\<close>: \<open>this.get = init.get; this.set = init.set\<close>.\<close>
  "Binding init s =
     alloc \<lparr>props = [(''get'', plain (jsGet init ''get'' s)),
                      (''set'', plain (jsGet init ''set'' s))],
            slots = []\<rparr> s"

definition bindingFor :: "nat \<Rightarrow> string \<Rightarrow> store \<Rightarrow> jsval \<times> store" where
  \<comment> \<open>The callback of \<open>map\<close>: the object literal with the closures, the \<open>Binding\<close> made of
     it, and the object with the single property \<open>$key\<close> that holds the binding.\<close>
  "bindingFor observable key s =
     (case alloc \<lparr>props = [(''get'', plain (BindingGet observable key)),
                             (''set'', plain (BindingSet observable key))],
                   slots = []\<rparr> s of
        (init, s1) \<Rightarrow>
          (case Binding init s1 of
             (b, s2) \<Rightarrow>
               (case alloc \<lparr>props = [(''$'' @ key, plain (ObjRef b))], slots = []\<rparr> s2 of
                  (w, s3) \<Rightarrow> (ObjRef w, s3))))"

fun mapBindings :: "nat \<Rightarrow> string list \<Rightarrow> store \<Rightarrow> jsval list \<times> store" where
  "mapBindings observable [] s = ([], s)"
| "mapBindings observable (key # keys) s =
     (case bindingFor observable key s of
        (v, s1) \<Rightarrow> (case mapBindings observable keys s1 of (vs, s2) \<Rightarrow> (v # vs, s2)))"

fun decimal :: "nat \<Rightarrow> string" where
  \<comment> \<open>The index of an array element as a property key.\<close>
  "decimal n =
     (if n < 10 then [''0123456789'' ! n] else decimal (n div 10) @ [''0123456789'' ! (n mod 10)])"

declare decimal.simps [simp del]

fun elements :: "nat \<Rightarrow> jsval list \<Rightarrow> (string \<times> property) list" where
  \<comment> \<open>The elements of an array from the index \<open>i\<close> on, as properties.\<close>
  "elements i [] = []"
| "elements i (v # vs) = (decimal i, plain v) # elements (Suc i) vs"

definition arrayObject :: "jsval list \<Rightarrow> obj" where
  \<comment> \<open>An array: its elements under their indices, and the \<open>length\<close>, not enumerable.\<close>
  "arrayObject vs =
     \<lparr>props = elements 0 vs @ [(''length'', Data (Num (int (length vs))) True False False)],
      slots = []\<rparr>"

fun assignKeys :: "nat \<Rightarrow> nat \<Rightarrow> string list \<Rightarrow> unit action_on_store" where
  \<comment> \<open>\<open>Object.assign(target, source)\<close>, key by key: an enumerable own property of the
     source is read and assigned to the target. The hidden slots are not enumerable.\<close>
  "assignKeys target source [] s = (Return (), s)"
| "assignKeys target source (k # ks) s =
     (case map_of (props (objects s source)) k of
        None \<Rightarrow> assignKeys target source ks s
      | Some d \<Rightarrow>
          (if enumerable d
           then (case jsSet target k (jsGet source k s) s of
                   (Throw e, s1) \<Rightarrow> (Throw e, s1)
                 | (Return _, s1) \<Rightarrow> assignKeys target source ks s1)
           else assignKeys target source ks s))"

definition Object_assign :: "nat \<Rightarrow> nat \<Rightarrow> jsval action_on_store" where
  "Object_assign target source s =
     (case assignKeys target source (getOwnPropertyNames (objects s source)) s of
        (Throw e, s1) \<Rightarrow> (Throw e, s1)
      | (Return _, s1) \<Rightarrow> (Return (ObjRef target), s1))"

definition bindable :: "nat \<Rightarrow> jsval action_on_store" where
  "bindable observable s =
     (case mapBindings observable (getOwnPropertyNames (objects s observable)) s of
        (vs, s1) \<Rightarrow>
          (case alloc (arrayObject vs) s1 of
             (array, s2) \<Rightarrow> Object_assign observable array s2))"

text \<open>
  Calling a function value, and calling a method of a value (\<open>v.m(...)\<close>): a member of
  \<open>undefined\<close> or \<open>null\<close> cannot be read, and a value that is not a function cannot be
  called. A wrapper forwards the read to the object it wraps.
\<close>

fun callFunction :: "jsval \<Rightarrow> jsval list \<Rightarrow> jsval action_on_store" where
  "callFunction (BindingGet a k) args s = (Return (jsGet a k s), s)"
| "callFunction (BindingSet a k) args s =
     (case jsSet a k (case args of [] \<Rightarrow> Undefined | v # _ \<Rightarrow> v) s of
        (Throw e, s1) \<Rightarrow> (Throw e, s1)
      | (Return _, s1) \<Rightarrow> (Return Undefined, s1))"
| "callFunction _ args s = (Throw TypeError, s)"

fun callMethod :: "jsval \<Rightarrow> string \<Rightarrow> jsval list \<Rightarrow> jsval action_on_store" where
  "callMethod (ObjRef a) m args s = callFunction (jsGet a m s) args s"
| "callMethod (Proxy a) m args s = callFunction (jsGet a m s) args s"
| "callMethod _ m args s = (Throw TypeError, s)"

subsection \<open>The classes of the source\<close>

text \<open>
  The class \<open>Atom\<close> of the source and the class \<open>Car\<close> of its documentation, as written
  (before \<open>Observable\<close> is applied), and the store of a program that has created nothing.
  \<^verbatim>\<open>
  export class Atom<Value> {
      value: Value
      constructor(initialValue: Value) { this.value = initialValue }
  }
  class Car {
      name: string = ""
      needsRepairs: boolean = false
      constructor(name: string, needsRepairs: boolean = false) {
          this.name = name
          this.needsRepairs = needsRepairs
      }
  }
  \<close>
\<close>

definition Atom :: "jsval constructor" where
  "Atom initialValue s =
     (case alloc \<lparr>props = [(''value'', plain initialValue)], slots = []\<rparr> s of
        (this, s1) \<Rightarrow> (Return this, s1))"

definition Car :: "(jsval \<times> jsval) constructor" where
  "Car args s =
     (case alloc \<lparr>props = [(''name'', plain (fst args)),
                             (''needsRepairs'',
                              plain (if snd args = Undefined then Bool False else snd args))],
                   slots = []\<rparr> s of
        (this, s1) \<Rightarrow> (Return this, s1))"

definition emptyStore :: store where
  "emptyStore =
     \<lparr>objects = (\<lambda>a. \<lparr>props = [], slots = []\<rparr>), nextObject = 0,
      cells = (\<lambda>r. Undefined), nextCell = 0, nextSymbol = 0, metadata = Some None\<rparr>"

definition ignoreList :: "store \<Rightarrow> string list" where
  \<comment> \<open>The property names registered in the ignore list of the class.\<close>
  "ignoreList s = (case metadata s of None \<Rightarrow> [] | Some entry \<Rightarrow> ignoredPropsOf entry)"

text \<open>
  The backing cells of the property \<open>p\<close> of an object: the hidden slots under a symbol of
  description \<open>__$$p\<close>, the description the constructor gives the symbol it makes for \<open>p\<close>.
\<close>

fun description :: "symbol \<Rightarrow> string" where
  "description (Symbol n d) = d"

definition backingCells :: "obj \<Rightarrow> string \<Rightarrow> (symbol \<times> cell) list" where
  "backingCells ob p = filter (\<lambda>kv. description (fst kv) = ''__$$'' @ p) (slots ob)"

section \<open>Properties of the tracking facade\<close>

lemma resetTracking_pauseTracking: "resetTracking (pauseTracking s) = s"
  by (simp add: resetTracking_def pauseTracking_def)

lemma exec_shouldTrack: "shouldTrack (snd (exec as s)) = shouldTrack s"
  by (induction as s rule: exec.induct) (simp_all add: track_def split: option.splits)

lemma exec_console: "console (snd (exec as s)) = console s @ emitted as"
  by (induction as s rule: exec.induct) (simp_all add: track_def split: option.splits)

lemma exec_fst: "fst (exec as s) = Return Undefined \<longleftrightarrow> \<not> raises as"
  by (induction as s rule: exec.induct) simp_all

lemma exec_result: "fst (exec as s) = Return Undefined \<or> (\<exists>e. fst (exec as s) = Throw e)"
  by (induction as s rule: exec.induct) simp_all

lemma exec_paused_deps: "\<not> shouldTrack s \<Longrightarrow> deps (snd (exec as s)) = deps s"
  by (induction as s rule: exec.induct) (simp_all add: track_def split: option.splits)

lemma exec_tracked_deps:
  "shouldTrack s \<Longrightarrow> activeEffect s = Some e \<Longrightarrow>
   set (deps (snd (exec as s)) e) = set (deps s e) \<union> set (reads as)"
  by (induction as s rule: exec.induct) (auto simp add: track_def split: option.splits)

lemma exec_paused:
  "\<not> shouldTrack s \<Longrightarrow> snd (exec as s) = s\<lparr>console := console s @ emitted as\<rparr>"
  by (induction as s rule: exec.induct) (simp_all add: track_def split: option.splits)

text \<open>
  A callback that only reads and prints, run by \<open>ignoringObservation\<close>, leaves the engine
  as it found it; one that throws leaves the pause open.
\<close>

lemma ignoringObservation_exec:
  "ignoringObservation (exec oc) s =
     (if raises oc
      then (fst (exec oc (pauseTracking s)),
            (pauseTracking s)\<lparr>console := console s @ emitted oc\<rparr>)
      else (Return Undefined, s\<lparr>console := console s @ emitted oc\<rparr>))"
proof -
  have p: "\<not> shouldTrack (pauseTracking s)"
    by (simp add: pauseTracking_def)
  obtain r s1 where e: "exec oc (pauseTracking s) = (r, s1)"
    by (cases "exec oc (pauseTracking s)")
  have s1: "s1 = (pauseTracking s)\<lparr>console := console (pauseTracking s) @ emitted oc\<rparr>"
    using exec_paused[OF p, of oc] e by simp
  have c: "console (pauseTracking s) = console s"
    by (simp add: pauseTracking_def)
  show ?thesis
  proof (cases "raises oc")
    case True
    then obtain er where "r = Throw er"
      using exec_fst[of oc "pauseTracking s"] exec_result[of oc "pauseTracking s"] e by auto
    then show ?thesis
      using True e s1 c by (simp add: ignoringObservation_def)
  next
    case False
    then have "r = Return Undefined"
      using exec_fst[of oc "pauseTracking s"] e by simp
    then show ?thesis
      using False e s1 c
      by (simp add: ignoringObservation_def resetTracking_def pauseTracking_def)
  qed
qed

lemma run_effectFn_exec:
  "run e (effectFn (exec ap) (Some (exec oc))) s =
     (if raises oc
      then (fst (exec oc (pauseTracking
                   (s\<lparr>activeEffect := Some e, shouldTrack := True,
                      deps := (deps s)(e := [])\<rparr>))),
            s\<lparr>deps := (deps s)(e := []), trackStack := True # trackStack s,
              console := console s @ emitted oc\<rparr>)
      else (fst (exec ap (s\<lparr>activeEffect := Some e, shouldTrack := True,
                           deps := (deps s)(e := []),
                           console := console s @ emitted oc\<rparr>)),
            (snd (exec ap (s\<lparr>activeEffect := Some e, shouldTrack := True,
                            deps := (deps s)(e := []),
                            console := console s @ emitted oc\<rparr>)))
              \<lparr>activeEffect := activeEffect s, shouldTrack := shouldTrack s\<rparr>))"
proof (cases "raises oc")
  case True
  then obtain er where
    "fst (exec oc (pauseTracking
            (s\<lparr>activeEffect := Some e, shouldTrack := True,
               deps := (deps s)(e := [])\<rparr>))) = Throw er"
    using exec_fst exec_result by blast
  then show ?thesis
    using True by (simp add: run_def effectFn_def ignoringObservation_exec pauseTracking_def)
next
  case False
  then show ?thesis
    by (simp add: run_def effectFn_def ignoringObservation_exec
        split: prod.splits outcome.splits)
qed

lemma run_deps:
  "set (deps (snd (run e (effectFn (exec ap) (Some (exec oc))) s)) e)
   = (if raises oc then {} else set (reads ap))"
  by (simp add: run_effectFn_exec exec_tracked_deps)

text \<open>
  A run of one tracked function leaves the dependencies of the others as they are, also
  when it is made while another tracked function is running.
\<close>

lemma exec_other_deps:
  "activeEffect s = Some e \<Longrightarrow> e' \<noteq> e \<Longrightarrow> deps (snd (exec as s)) e' = deps s e'"
  by (induction as s rule: exec.induct) (auto simp add: track_def split: option.splits)

lemma run_other_deps:
  "e' \<noteq> e \<Longrightarrow> deps (snd (run e (exec as) s)) e' = deps s e'"
  using exec_other_deps[of "s\<lparr>activeEffect := Some e, shouldTrack := True, deps := (deps s)(e := [])\<rparr>" e e' as]
  by (cases "exec as (s\<lparr>activeEffect := Some e, shouldTrack := True, deps := (deps s)(e := [])\<rparr>)")
     (simp add: run_def)

lemma run_console:
  "console (snd (run e (effectFn (exec ap) (Some (exec oc))) s))
   = console s @ emitted oc @ (if raises oc then [] else emitted ap)"
  by (simp add: run_effectFn_exec exec_console)

lemma withObservationTracking_snd:
  "snd (withObservationTracking apply onChange s)
   = snd (run (nextEffect s) (effectFn apply onChange) (s\<lparr>nextEffect := Suc (nextEffect s)\<rparr>))"
  by (simp add: withObservationTracking_def effect_def split: prod.splits outcome.splits)

text \<open>
  Claim C10. When the callback returns normally with the value \<open>v\<close>,
  \<open>ignoringObservation\<close> returns \<open>v\<close>: the wrapper does not change what the callback
  returns. The callback runs in the state that \<open>pauseTracking\<close> leaves.
\<close>

theorem ignoringObservation_returns_value:
  assumes "fn (pauseTracking s) = (Return v, s1)"
  shows "fst (ignoringObservation fn s) = Return v"
  using assms by (simp add: ignoringObservation_def)

theorem ignoringObservation_returns_value_witness:
  "fst (ignoringObservation (\<lambda>s. (Return (Num 7), track 3 s)) (idle\<lparr>activeEffect := Some 0\<rparr>))
   = Return (Num 7)"
  using ignoringObservation_returns_value
    [of "\<lambda>s. (Return (Num 7), track 3 s)" "idle\<lparr>activeEffect := Some 0\<rparr>" "Num 7"
        "track 3 (pauseTracking (idle\<lparr>activeEffect := Some 0\<rparr>))"]
  by simp

text \<open>
  Claim C5. Every invocation of \<open>onChange\<close>, in the first run of the tracked function and
  in every later one, is made by \<open>effectFn\<close> on the state that \<open>pauseTracking\<close> leaves.
  Recording stays off after each action of a callback that reads and prints, and the
  dependencies are the same after it as before. So the dependencies of a run are the cells
  that \<open>apply\<close> read (none when \<open>onChange\<close> threw before \<open>apply\<close> could run), and writing a
  cell that \<open>apply\<close> does not read, such as one read only inside \<open>onChange\<close>, does not run
  the tracked function again.
\<close>

theorem onChange_runs_untracked:
  "effectFn apply (Some f) s =
      (case f (pauseTracking s) of
         (Throw e, s1) \<Rightarrow> (Throw e, s1)
       | (Return v, s1) \<Rightarrow> apply (resetTracking s1))
   \<and> \<not> shouldTrack (pauseTracking s)
   \<and> \<not> shouldTrack (snd (exec (take n oc) (pauseTracking s)))
   \<and> deps (snd (exec oc (pauseTracking s))) = deps s
   \<and> set (deps (snd (withObservationTracking (exec ap) (Some (exec oc)) s)) (nextEffect s))
        = (if raises oc then {} else set (reads ap))
   \<and> set (deps (snd (run k (effectFn (exec ap) (Some (exec oc))) s)) k)
        = (if raises oc then {} else set (reads ap))
   \<and> (c \<notin> set (reads ap) \<longrightarrow>
        trigger (nextEffect s) (effectFn (exec ap) (Some (exec oc))) c
          (snd (withObservationTracking (exec ap) (Some (exec oc)) s))
        = (False, snd (withObservationTracking (exec ap) (Some (exec oc)) s)))"
proof -
  have p: "\<not> shouldTrack (pauseTracking s)"
    by (simp add: pauseTracking_def)
  have a: "effectFn apply (Some f) s =
      (case f (pauseTracking s) of
         (Throw e, s1) \<Rightarrow> (Throw e, s1)
       | (Return v, s1) \<Rightarrow> apply (resetTracking s1))"
    by (simp add: effectFn_def ignoringObservation_def split: prod.splits outcome.splits)
  have q: "\<not> shouldTrack (snd (exec (take n oc) (pauseTracking s)))"
    using p by (simp add: exec_shouldTrack)
  have d: "deps (snd (exec oc (pauseTracking s))) = deps s"
    using exec_paused_deps[OF p, of oc] by (simp add: pauseTracking_def)
  have r: "set (deps (snd (run k (effectFn (exec ap) (Some (exec oc))) s)) k)
        = (if raises oc then {} else set (reads ap))"
    by (rule run_deps)
  have w: "set (deps (snd (withObservationTracking (exec ap) (Some (exec oc)) s)) (nextEffect s))
        = (if raises oc then {} else set (reads ap))"
    unfolding withObservationTracking_snd by (rule run_deps)
  have t: "c \<notin> set (reads ap) \<longrightarrow>
        trigger (nextEffect s) (effectFn (exec ap) (Some (exec oc))) c
          (snd (withObservationTracking (exec ap) (Some (exec oc)) s))
        = (False, snd (withObservationTracking (exec ap) (Some (exec oc)) s))"
    using w by (simp add: trigger_def)
  show ?thesis
    using p a q d w r t by (simp only: simp_thms)
qed

theorem onChange_runs_untracked_witness:
  "2 \<notin> set (reads [Read 1, Emit ''render''])
   \<and> \<not> shouldTrack (snd (exec (take 1 [Read 2, Emit ''changed'']) (pauseTracking idle)))
   \<and> set (deps (snd (withObservationTracking (exec [Read 1, Emit ''render''])
        (Some (exec [Read 2, Emit ''changed''])) idle)) 0)
      = {1}
   \<and> trigger 0 (effectFn (exec [Read 1, Emit ''render'']) (Some (exec [Read 2, Emit ''changed''])))
        2
        (snd (withObservationTracking (exec [Read 1, Emit ''render''])
          (Some (exec [Read 2, Emit ''changed''])) idle))
      = (False,
         idle\<lparr>deps := (\<lambda>e. [])(0 := [1]), nextEffect := 1,
              console := [''changed'', ''render'']\<rparr>)"
  using onChange_runs_untracked
    [of "exec [Read 1, Emit ''render'']" "exec [Read 2, Emit ''changed'']" idle
        1 "[Read 2, Emit ''changed'']" "[Read 1, Emit ''render'']" 0 2]
  by (simp add: withObservationTracking_def effect_def run_def effectFn_def
      ignoringObservation_def pauseTracking_def resetTracking_def track_def idle_def)

text \<open>
  Claim C9. When \<open>onChange\<close> is supplied, the first run of the tracked function, the one
  that \<open>withObservationTracking\<close> itself makes before any dependency exists or changes,
  invokes \<open>onChange\<close> once and before \<open>apply\<close>: what the call adds to the console is what
  \<open>onChange\<close> printed, followed by what \<open>apply\<close> printed (nothing, when \<open>onChange\<close>
  threw and \<open>apply\<close> never ran).
\<close>

theorem onChange_first_in_initial_run:
  "console (snd (withObservationTracking (exec ap) (Some (exec oc)) s))
   = console s @ emitted oc @ (if raises oc then [] else emitted ap)"
  by (simp add: withObservationTracking_snd run_console)

theorem onChange_first_in_initial_run_witness:
  "console (snd (withObservationTracking (exec [Read 1, Emit ''render''])
      (Some (exec [Emit ''changed'', Read 2])) idle))
   = [''changed'', ''render'']"
  using onChange_first_in_initial_run
    [of "[Read 1, Emit ''render'']" "[Emit ''changed'', Read 2]" idle]
  by (simp add: idle_def)

text \<open>
  Claim C6, as stated, fails when the callback throws: the exception leaves
  \<open>ignoringObservation\<close> before \<open>resetTracking\<close> is reached, and recording stays suspended
  with the pause still open.
\<close>

theorem ignoringObservation_throw_counterexample:
  "ignoringObservation (exec [Raise (Error ''boom'')]) idle
   = (Throw (Error ''boom''), idle\<lparr>shouldTrack := False, trackStack := [True]\<rparr>)
   \<and> shouldTrack idle
   \<and> \<not> shouldTrack (snd (ignoringObservation (exec [Raise (Error ''boom'')]) idle))"
  by (simp add: ignoringObservation_def pauseTracking_def idle_def)

text \<open>
  Claim C6, amended. \<open>ignoringObservation\<close> runs the callback with recording suspended.
  When the callback returns normally, \<open>resetTracking\<close> is applied to the state it left
  before \<open>ignoringObservation\<close> returns, and recording is back to what it was before the
  call whenever the callback left the open pauses as it found them. When the callback
  throws, the error propagates and the state is the one the callback left: recording is
  not resumed.
\<close>

theorem ignoringObservation_resumes_on_return:
  "\<not> shouldTrack (pauseTracking s)
   \<and> (fn (pauseTracking s) = (Return v, s1) \<longrightarrow>
        ignoringObservation fn s = (Return v, resetTracking s1)
        \<and> (trackStack s1 = trackStack (pauseTracking s) \<longrightarrow>
             shouldTrack (resetTracking s1) = shouldTrack s
             \<and> trackStack (resetTracking s1) = trackStack s))
   \<and> (fn (pauseTracking s) = (Throw e, s1) \<longrightarrow> ignoringObservation fn s = (Throw e, s1))"
  by (simp add: ignoringObservation_def pauseTracking_def resetTracking_def)

theorem ignoringObservation_resumes_on_return_witness:
  "exec [Read 4] (pauseTracking (idle\<lparr>activeEffect := Some 0\<rparr>))
     = (Return Undefined,
        idle\<lparr>activeEffect := Some 0, shouldTrack := False, trackStack := [True]\<rparr>)
   \<and> ignoringObservation (exec [Read 4]) (idle\<lparr>activeEffect := Some 0\<rparr>)
     = (Return Undefined, idle\<lparr>activeEffect := Some 0\<rparr>)
   \<and> exec [Raise TypeError] (pauseTracking (idle\<lparr>activeEffect := Some 0\<rparr>))
     = (Throw TypeError,
        idle\<lparr>activeEffect := Some 0, shouldTrack := False, trackStack := [True]\<rparr>)
   \<and> ignoringObservation (exec [Raise TypeError]) (idle\<lparr>activeEffect := Some 0\<rparr>)
     = (Throw TypeError,
        idle\<lparr>activeEffect := Some 0, shouldTrack := False, trackStack := [True]\<rparr>)"
  using ignoringObservation_resumes_on_return
    [of "idle\<lparr>activeEffect := Some 0\<rparr>" "exec [Read 4]" Undefined
        "idle\<lparr>activeEffect := Some 0, shouldTrack := False, trackStack := [True]\<rparr>"]
    ignoringObservation_resumes_on_return
    [of "idle\<lparr>activeEffect := Some 0\<rparr>" "exec [Raise TypeError]" _
        "idle\<lparr>activeEffect := Some 0, shouldTrack := False, trackStack := [True]\<rparr>"
        TypeError]
  by (simp add: pauseTracking_def resetTracking_def track_def idle_def)
section \<open>Properties of the Observable transform and of bindable\<close>

lemma map_fst_update_present:
  "k \<in> fst ` set al \<Longrightarrow> map fst (AList.update k v al) = map fst al"
  by (induction al) auto

text \<open>
  One turn of the loop, when it does not throw: the property was configurable; it is now
  the accessor pair over a symbol made in this turn, under which the object holds the new
  cell; nothing else changed.
\<close>

lemma wrapProperty_Return:
  assumes "wrapProperty a p s = (Return u, s')"
  shows "\<exists>d c. map_of (props (objects s a)) p = Some d \<and> configurable d
      \<and> nextSymbol s' = Suc (nextSymbol s)
      \<and> nextObject s' = nextObject s
      \<and> metadata s' = metadata s
      \<and> (\<forall>a'. a' \<noteq> a \<longrightarrow> objects s' a' = objects s a')
      \<and> props (objects s' a) =
            AList.update p (Accessor (Symbol (nextSymbol s) (''__$$'' @ p)) (enumerable d) True)
              (props (objects s a))
      \<and> slots (objects s' a) =
            AList.update (Symbol (nextSymbol s) (''__$$'' @ p)) c (slots (objects s a))
      \<and> (if typeof (descriptorValue d) = ''object'' \<or> descriptorValue d = Str ''undefined''
          then c = Reactive (toReactive (descriptorValue d)) \<and> cells s' = cells s \<and> nextCell s' = nextCell s
          else c = Ref (nextCell s) \<and> cells s' = (cells s)(nextCell s := toReactive (descriptorValue d))
               \<and> nextCell s' = Suc (nextCell s))"
  using assms
  by (auto simp add: wrapProperty_def getOwnPropertyDescriptor_def newSymbol_def reactive_def
      ref_def defineAccessor_def defineSlot_def Let_def
      split: option.splits if_splits prod.splits)

text \<open>
  What the loop leaves alone: the counters only grow, the properties it skips keep their
  descriptors, the names and their order stay, and the slots and cells that existed before
  keep their contents.
\<close>

lemma wrapProperty_frame:
  assumes "wrapProperty a p s = (Return u, s')"
  shows "nextSymbol s' = Suc (nextSymbol s)"
    and "nextCell s \<le> nextCell s'"
    and "metadata s' = metadata s"
    and "nextObject s' = nextObject s"
    and "a' \<noteq> a \<Longrightarrow> objects s' a' = objects s a'"
    and "q \<noteq> p \<Longrightarrow> map_of (props (objects s' a)) q = map_of (props (objects s a)) q"
    and "map fst (props (objects s' a)) = map fst (props (objects s a))"
    and "n < nextSymbol s \<Longrightarrow>
         map_of (slots (objects s' a)) (Symbol n x) = map_of (slots (objects s a)) (Symbol n x)"
    and "r < nextCell s \<Longrightarrow> cells s' r = cells s r"
    and "fst ` set (slots (objects s' a))
         = insert (Symbol (nextSymbol s) (''__$$'' @ p)) (fst ` set (slots (objects s a)))"
    and "distinct (map fst (slots (objects s a))) \<Longrightarrow> distinct (map fst (slots (objects s' a)))"
proof -
  from wrapProperty_Return[OF assms] obtain d c where
    d: "map_of (props (objects s a)) p = Some d"
    and sy: "nextSymbol s' = Suc (nextSymbol s)"
    and no: "nextObject s' = nextObject s"
    and md: "metadata s' = metadata s"
    and ot: "\<forall>a'. a' \<noteq> a \<longrightarrow> objects s' a' = objects s a'"
    and pr: "props (objects s' a) =
            AList.update p (Accessor (Symbol (nextSymbol s) (''__$$'' @ p)) (enumerable d) True)
              (props (objects s a))"
    and sl: "slots (objects s' a) =
            AList.update (Symbol (nextSymbol s) (''__$$'' @ p)) c (slots (objects s a))"
    and ce: "if typeof (descriptorValue d) = ''object'' \<or> descriptorValue d = Str ''undefined''
          then c = Reactive (toReactive (descriptorValue d)) \<and> cells s' = cells s \<and> nextCell s' = nextCell s
          else c = Ref (nextCell s) \<and> cells s' = (cells s)(nextCell s := toReactive (descriptorValue d))
               \<and> nextCell s' = Suc (nextCell s)"
    by blast
  show "nextSymbol s' = Suc (nextSymbol s)" by (rule sy)
  show "nextCell s \<le> nextCell s'" using ce by (auto split: if_splits)
  show "metadata s' = metadata s" by (rule md)
  show "nextObject s' = nextObject s" by (rule no)
  show "a' \<noteq> a \<Longrightarrow> objects s' a' = objects s a'" using ot by simp
  show "q \<noteq> p \<Longrightarrow> map_of (props (objects s' a)) q = map_of (props (objects s a)) q"
    by (simp add: pr update_conv')
  have "p \<in> fst ` set (props (objects s a))"
    using map_of_SomeD[OF d] by force
  then show "map fst (props (objects s' a)) = map fst (props (objects s a))"
    by (simp add: pr map_fst_update_present)
  show "n < nextSymbol s \<Longrightarrow>
         map_of (slots (objects s' a)) (Symbol n x) = map_of (slots (objects s a)) (Symbol n x)"
    by (simp add: sl update_conv')
  show "r < nextCell s \<Longrightarrow> cells s' r = cells s r"
    using ce by (auto split: if_splits)
  show "fst ` set (slots (objects s' a))
         = insert (Symbol (nextSymbol s) (''__$$'' @ p)) (fst ` set (slots (objects s a)))"
    using dom_update[of "Symbol (nextSymbol s) (''__$$'' @ p)" c "slots (objects s a)"]
    by (simp add: sl)
  show "distinct (map fst (slots (objects s a))) \<Longrightarrow> distinct (map fst (slots (objects s' a)))"
    by (simp add: sl distinct_update)
qed

lemma wrapProperties_frame:
  "wrapProperties a ign ps s = (Return u, s') \<Longrightarrow>
     nextSymbol s \<le> nextSymbol s'
   \<and> nextCell s \<le> nextCell s'
   \<and> metadata s' = metadata s
   \<and> nextObject s' = nextObject s
   \<and> (\<forall>a'. a' \<noteq> a \<longrightarrow> objects s' a' = objects s a')
   \<and> (\<forall>q. q \<notin> set ps \<or> q \<in> set ign \<longrightarrow>
          map_of (props (objects s' a)) q = map_of (props (objects s a)) q)
   \<and> map fst (props (objects s' a)) = map fst (props (objects s a))
   \<and> (\<forall>n x. n < nextSymbol s \<longrightarrow>
          map_of (slots (objects s' a)) (Symbol n x) = map_of (slots (objects s a)) (Symbol n x))
   \<and> (\<forall>r. r < nextCell s \<longrightarrow> cells s' r = cells s r)
   \<and> (distinct (map fst (slots (objects s a))) \<longrightarrow> distinct (map fst (slots (objects s' a))))"
proof (induction ps arbitrary: s)
  case Nil
  then show ?case by simp
next
  case (Cons p ps)
  show ?case
  proof (cases "p \<in> set ign")
    case True
    then have "wrapProperties a ign ps s = (Return u, s')"
      using Cons.prems by simp
    from Cons.IH[OF this] True show ?thesis by auto
  next
    case False
    then obtain u1 s1 where st: "wrapProperty a p s = (Return u1, s1)"
      and rest: "wrapProperties a ign ps s1 = (Return u, s')"
      using Cons.prems by (auto split: prod.splits outcome.splits)
    note f = wrapProperty_frame[OF st]
    note ih = Cons.IH[OF rest]
    have 1: "nextSymbol s \<le> nextSymbol s'" using f(1) ih by simp
    have 2: "nextCell s \<le> nextCell s'" using f(2) ih by simp
    have 3: "metadata s' = metadata s" using f(3) ih by simp
    have 4: "nextObject s' = nextObject s" using f(4) ih by simp
    have 5: "\<forall>a'. a' \<noteq> a \<longrightarrow> objects s' a' = objects s a'" using f(5) ih by simp
    have 6: "\<forall>q. q \<notin> set (p # ps) \<or> q \<in> set ign \<longrightarrow>
          map_of (props (objects s' a)) q = map_of (props (objects s a)) q"
    proof (intro allI impI)
      fix q assume q: "q \<notin> set (p # ps) \<or> q \<in> set ign"
      then have "q \<noteq> p" using False by auto
      moreover have "q \<notin> set ps \<or> q \<in> set ign" using q by auto
      ultimately show "map_of (props (objects s' a)) q = map_of (props (objects s a)) q"
        using f(6)[of q] ih by simp
    qed
    have 7: "map fst (props (objects s' a)) = map fst (props (objects s a))"
      using f(7) ih by simp
    have 8: "\<forall>n x. n < nextSymbol s \<longrightarrow>
          map_of (slots (objects s' a)) (Symbol n x) = map_of (slots (objects s a)) (Symbol n x)"
    proof (intro allI impI)
      fix n x assume n: "n < nextSymbol s"
      then have "n < nextSymbol s1" using f(1) by simp
      then show "map_of (slots (objects s' a)) (Symbol n x) = map_of (slots (objects s a)) (Symbol n x)"
        using f(8)[OF n] ih by simp
    qed
    have 9: "\<forall>r. r < nextCell s \<longrightarrow> cells s' r = cells s r"
    proof (intro allI impI)
      fix r assume r: "r < nextCell s"
      then have "r < nextCell s1" using f(2) by simp
      then show "cells s' r = cells s r" using f(9)[OF r] ih by simp
    qed
    have 10: "distinct (map fst (slots (objects s a))) \<longrightarrow> distinct (map fst (slots (objects s' a)))"
      using f(11) ih by simp
    show ?thesis using 1 2 3 4 5 6 7 8 9 10 by blast
  qed
qed

text \<open>
  What the loop does for a property it does not skip.
\<close>

lemma wrapProperty_wrapped:
  assumes "wrapProperty a p s = (Return u, s')"
  shows "\<exists>d c. map_of (props (objects s a)) p = Some d \<and> configurable d
      \<and> map_of (props (objects s' a)) p
          = Some (Accessor (Symbol (nextSymbol s) (''__$$'' @ p)) (enumerable d) True)
      \<and> map_of (slots (objects s' a)) (Symbol (nextSymbol s) (''__$$'' @ p)) = Some c
      \<and> (if typeof (descriptorValue d) = ''object'' \<or> descriptorValue d = Str ''undefined''
          then c = Reactive (toReactive (descriptorValue d))
          else c = Ref (nextCell s) \<and> nextCell s < nextCell s'
               \<and> cells s' (nextCell s) = toReactive (descriptorValue d))"
proof -
  from wrapProperty_Return[OF assms] obtain d c where
    d: "map_of (props (objects s a)) p = Some d" "configurable d"
    and pr: "props (objects s' a) =
            AList.update p (Accessor (Symbol (nextSymbol s) (''__$$'' @ p)) (enumerable d) True)
              (props (objects s a))"
    and sl: "slots (objects s' a) =
            AList.update (Symbol (nextSymbol s) (''__$$'' @ p)) c (slots (objects s a))"
    and ce: "if typeof (descriptorValue d) = ''object'' \<or> descriptorValue d = Str ''undefined''
          then c = Reactive (toReactive (descriptorValue d)) \<and> cells s' = cells s \<and> nextCell s' = nextCell s
          else c = Ref (nextCell s) \<and> cells s' = (cells s)(nextCell s := toReactive (descriptorValue d))
               \<and> nextCell s' = Suc (nextCell s)"
    by blast
  have "map_of (props (objects s' a)) p
          = Some (Accessor (Symbol (nextSymbol s) (''__$$'' @ p)) (enumerable d) True)"
    by (simp add: pr update_conv')
  moreover have "map_of (slots (objects s' a)) (Symbol (nextSymbol s) (''__$$'' @ p)) = Some c"
    by (simp add: sl update_conv')
  moreover have "if typeof (descriptorValue d) = ''object'' \<or> descriptorValue d = Str ''undefined''
          then c = Reactive (toReactive (descriptorValue d))
          else c = Ref (nextCell s) \<and> nextCell s < nextCell s'
               \<and> cells s' (nextCell s) = toReactive (descriptorValue d)"
    using ce by (auto split: if_splits)
  ultimately show ?thesis using d by blast
qed

lemma wrapProperties_wrapped:
  "wrapProperties a ign ps s = (Return u, s') \<Longrightarrow> distinct ps \<Longrightarrow> p \<in> set ps \<Longrightarrow>
   p \<notin> set ign \<Longrightarrow>
   \<exists>d n c. map_of (props (objects s a)) p = Some d \<and> configurable d
      \<and> nextSymbol s \<le> n \<and> n < nextSymbol s'
      \<and> map_of (props (objects s' a)) p
          = Some (Accessor (Symbol n (''__$$'' @ p)) (enumerable d) True)
      \<and> map_of (slots (objects s' a)) (Symbol n (''__$$'' @ p)) = Some c
      \<and> (if typeof (descriptorValue d) = ''object'' \<or> descriptorValue d = Str ''undefined''
          then c = Reactive (toReactive (descriptorValue d))
          else \<exists>r. c = Ref r \<and> nextCell s \<le> r \<and> r < nextCell s'
                 \<and> cells s' r = toReactive (descriptorValue d))"
proof (induction ps arbitrary: s)
  case Nil
  then show ?case by simp
next
  case (Cons q ps)
  show ?case
  proof (cases "q \<in> set ign")
    case True
    then have "wrapProperties a ign ps s = (Return u, s')" "distinct ps" "p \<in> set ps"
      using Cons.prems by auto
    from Cons.IH[OF this Cons.prems(4)] show ?thesis .
  next
    case False
    then obtain u1 s1 where st: "wrapProperty a q s = (Return u1, s1)"
      and rest: "wrapProperties a ign ps s1 = (Return u, s')"
      using Cons.prems(1) by (auto split: prod.splits outcome.splits)
    note f = wrapProperty_frame[OF st]
    note fr = wrapProperties_frame[OF rest]
    show ?thesis
    proof (cases "p = q")
      case True
      then have notin: "p \<notin> set ps" using Cons.prems(2) by simp
      from wrapProperty_wrapped[OF st] True obtain d c where
        d: "map_of (props (objects s a)) p = Some d" "configurable d"
        and acc: "map_of (props (objects s1 a)) p
          = Some (Accessor (Symbol (nextSymbol s) (''__$$'' @ p)) (enumerable d) True)"
        and sl: "map_of (slots (objects s1 a)) (Symbol (nextSymbol s) (''__$$'' @ p)) = Some c"
        and ce: "if typeof (descriptorValue d) = ''object'' \<or> descriptorValue d = Str ''undefined''
          then c = Reactive (toReactive (descriptorValue d))
          else c = Ref (nextCell s) \<and> nextCell s < nextCell s1
               \<and> cells s1 (nextCell s) = toReactive (descriptorValue d)"
        by blast
      have lt: "nextSymbol s < nextSymbol s1" using f(1) by simp
      have a1: "nextSymbol s < nextSymbol s'" using lt fr by simp
      have a2: "map_of (props (objects s' a)) p
          = Some (Accessor (Symbol (nextSymbol s) (''__$$'' @ p)) (enumerable d) True)"
        using fr notin acc by simp
      have a3: "map_of (slots (objects s' a)) (Symbol (nextSymbol s) (''__$$'' @ p)) = Some c"
        using fr lt sl by simp
      have a4: "if typeof (descriptorValue d) = ''object'' \<or> descriptorValue d = Str ''undefined''
          then c = Reactive (toReactive (descriptorValue d))
          else \<exists>r. c = Ref r \<and> nextCell s \<le> r \<and> r < nextCell s'
                 \<and> cells s' r = toReactive (descriptorValue d)"
      proof (cases "typeof (descriptorValue d) = ''object'' \<or> descriptorValue d = Str ''undefined''")
        case True
        then show ?thesis using ce by simp
      next
        case False
        then have c: "c = Ref (nextCell s)" "nextCell s < nextCell s1"
          "cells s1 (nextCell s) = toReactive (descriptorValue d)"
          using ce by simp_all
        have "nextCell s < nextCell s'" using c(2) fr by simp
        moreover have "cells s' (nextCell s) = toReactive (descriptorValue d)" using fr c(2,3) by simp
        ultimately show ?thesis using False c(1) by auto
      qed
      show ?thesis using d a1 a2 a3 a4 by blast
    next
      case False
      then have "p \<in> set ps" "distinct ps" using Cons.prems by auto
      from Cons.IH[OF rest this(2) this(1) Cons.prems(4)] obtain d n c where
        d: "map_of (props (objects s1 a)) p = Some d" "configurable d"
        and n: "nextSymbol s1 \<le> n" "n < nextSymbol s'"
        and acc: "map_of (props (objects s' a)) p
          = Some (Accessor (Symbol n (''__$$'' @ p)) (enumerable d) True)"
        and sl: "map_of (slots (objects s' a)) (Symbol n (''__$$'' @ p)) = Some c"
        and ce: "if typeof (descriptorValue d) = ''object'' \<or> descriptorValue d = Str ''undefined''
          then c = Reactive (toReactive (descriptorValue d))
          else \<exists>r. c = Ref r \<and> nextCell s1 \<le> r \<and> r < nextCell s'
                 \<and> cells s' r = toReactive (descriptorValue d)"
        by blast
      have d0: "map_of (props (objects s a)) p = Some d" using d(1) f(6)[OF False] by simp
      have n0: "nextSymbol s \<le> n" using n(1) f(1) by simp
      have ce0: "if typeof (descriptorValue d) = ''object'' \<or> descriptorValue d = Str ''undefined''
          then c = Reactive (toReactive (descriptorValue d))
          else \<exists>r. c = Ref r \<and> nextCell s \<le> r \<and> r < nextCell s'
                 \<and> cells s' r = toReactive (descriptorValue d)"
        using ce f(2) by (auto split: if_splits)
      show ?thesis using d0 d(2) n0 n(2) acc sl ce0 by blast
    qed
  qed
qed

lemma wrapProperties_slot_keys:
  "wrapProperties a ign ps s = (Return u, s') \<Longrightarrow> b \<in> fst ` set (slots (objects s' a)) \<Longrightarrow>
   b \<in> fst ` set (slots (objects s a))
   \<or> (\<exists>q n. q \<in> set ps \<and> q \<notin> set ign \<and> b = Symbol n (''__$$'' @ q))"
proof (induction ps arbitrary: s)
  case Nil
  then show ?case by simp
next
  case (Cons p ps)
  show ?case
  proof (cases "p \<in> set ign")
    case True
    then have "wrapProperties a ign ps s = (Return u, s')" using Cons.prems by simp
    from Cons.IH[OF this Cons.prems(2)] show ?thesis by auto
  next
    case False
    then obtain u1 s1 where st: "wrapProperty a p s = (Return u1, s1)"
      and rest: "wrapProperties a ign ps s1 = (Return u, s')"
      using Cons.prems(1) by (auto split: prod.splits outcome.splits)
    from Cons.IH[OF rest Cons.prems(2)] wrapProperty_frame(10)[OF st] False
    show ?thesis by auto
  qed
qed

lemma wrappingPass_Return:
  assumes "wrappingPass a s = (Return u, s')"
  shows "\<exists>s0. wrapProperties a (ignoreList s) (getOwnPropertyNames (objects s a)) s0 = (Return u, s')
           \<and> objects s0 = objects s \<and> nextSymbol s0 = nextSymbol s \<and> nextCell s0 = nextCell s
           \<and> cells s0 = cells s \<and> nextObject s0 = nextObject s"
  using assms
  by (auto simp add: wrappingPass_def ignoreList_def split: option.splits)

lemma Observed_Return:
  assumes "Observed target args s = (Return this, s')"
  shows "\<exists>s1 u. target args s = (Return this, s1) \<and> wrappingPass this s1 = (Return u, s')"
  using assms
  by (auto simp add: Observed_def split: prod.splits outcome.splits)

lemma Observable_class: "Observable target ClassKind = Return cls \<Longrightarrow> cls = Observed target"
  by (simp add: Observable_def)

lemma accessor_roundtrip:
  assumes "map_of (props (objects s a)) p = Some (Accessor b e c)"
  shows "\<exists>s2. jsSet a p v2 s = (Return (), s2) \<and> jsGet a p s2 = toReactive v2"
proof (cases "map_of (slots (objects s a)) b")
  case None
  then show ?thesis
    using assms by (simp add: jsSet_def jsGet_def setter_def getter_def reactive_def update_conv' Let_def)
next
  case (Some cl)
  then show ?thesis
    using assms
    by (cases cl) (simp_all add: jsSet_def jsGet_def setter_def getter_def reactive_def update_conv' Let_def)
qed

lemma toReactive_scalar: "typeof v \<noteq> ''object'' \<Longrightarrow> toReactive v = v"
  by (cases v) simp_all

lemma set_getOwnPropertyNames: "set (getOwnPropertyNames ob) = fst ` set (props ob)"
  by (auto simp add: getOwnPropertyNames_def)

text \<open>
  The same for an instance of the class that \<open>Observable\<close> returns: \<open>s1\<close> is the store
  when \<open>super(...args)\<close> has returned.
\<close>

lemma Observed_wrapped:
  assumes run: "Observed target args s = (Return this, s')"
    and super: "target args s = (Return this0, s1)"
    and names: "distinct (getOwnPropertyNames (objects s1 this0))"
    and own: "p \<in> set (getOwnPropertyNames (objects s1 this0))"
    and notign: "p \<notin> set (ignoreList s1)"
  shows "this = this0 \<and> (\<exists>d n c. getOwnPropertyDescriptor (objects s1 this) p = Some d \<and> configurable d
      \<and> nextSymbol s1 \<le> n \<and> n < nextSymbol s'
      \<and> map_of (props (objects s' this)) p
          = Some (Accessor (Symbol n (''__$$'' @ p)) (enumerable d) True)
      \<and> map_of (slots (objects s' this)) (Symbol n (''__$$'' @ p)) = Some c
      \<and> (distinct (map fst (slots (objects s1 this))) \<longrightarrow> distinct (map fst (slots (objects s' this))))
      \<and> (if typeof (descriptorValue d) = ''object'' \<or> descriptorValue d = Str ''undefined''
          then c = Reactive (toReactive (descriptorValue d))
          else \<exists>r. c = Ref r \<and> nextCell s1 \<le> r \<and> r < nextCell s'
                 \<and> cells s' r = toReactive (descriptorValue d)))"
proof -
  from Observed_Return[OF run] super obtain u where
    t: "this = this0" and wp: "wrappingPass this s1 = (Return u, s')"
    by auto
  from wrappingPass_Return[OF wp] obtain s0 where
    w: "wrapProperties this (ignoreList s1) (getOwnPropertyNames (objects s1 this)) s0 = (Return u, s')"
    and eq: "objects s0 = objects s1" "nextSymbol s0 = nextSymbol s1" "nextCell s0 = nextCell s1"
    by blast
  have dist: "distinct (map fst (slots (objects s1 this))) \<longrightarrow> distinct (map fst (slots (objects s' this)))"
    using wrapProperties_frame[OF w] eq by simp
  have "p \<in> set (getOwnPropertyNames (objects s1 this))" "distinct (getOwnPropertyNames (objects s1 this))"
    using own names t by simp_all
  from wrapProperties_wrapped[OF w this(2) this(1) notign]
  have "\<exists>d n c. map_of (props (objects s1 this)) p = Some d \<and> configurable d
      \<and> nextSymbol s1 \<le> n \<and> n < nextSymbol s'
      \<and> map_of (props (objects s' this)) p
          = Some (Accessor (Symbol n (''__$$'' @ p)) (enumerable d) True)
      \<and> map_of (slots (objects s' this)) (Symbol n (''__$$'' @ p)) = Some c
      \<and> (if typeof (descriptorValue d) = ''object'' \<or> descriptorValue d = Str ''undefined''
          then c = Reactive (toReactive (descriptorValue d))
          else \<exists>r. c = Ref r \<and> nextCell s1 \<le> r \<and> r < nextCell s'
                 \<and> cells s' r = toReactive (descriptorValue d))"
    unfolding eq .
  then show ?thesis
    using t dist unfolding getOwnPropertyDescriptor_def by blast
qed


text \<open>
  The backing cells of a property through the loop: a turn for another property leaves
  them as they are, and the turn for a property that has none gives it one.
\<close>



lemma described_update_other:
  "description b \<noteq> D \<Longrightarrow>
   filter (\<lambda>kv. description (fst kv) = D) (AList.update b c al)
   = filter (\<lambda>kv. description (fst kv) = D) al"
  by (induction al) auto

lemma described_update_new:
  "filter (\<lambda>kv. description (fst kv) = D) al = [] \<Longrightarrow> description b = D \<Longrightarrow>
   filter (\<lambda>kv. description (fst kv) = D) (AList.update b c al) = [(b, c)]"
  by (induction al) (auto split: if_splits)

lemma described_update_same:
  "filter (\<lambda>kv. description (fst kv) = D) al = [(b, cl)] \<Longrightarrow>
   filter (\<lambda>kv. description (fst kv) = D) (AList.update b c al) = [(b, c)]"
proof (induction al)
  case Nil
  then show ?case by simp
next
  case (Cons x al)
  have "(b, cl) \<in> set (filter (\<lambda>kv. description (fst kv) = D) (x # al))"
    using Cons.prems by simp
  then have db: "description b = D"
    by (auto split: if_splits)
  show ?case
  proof (cases "description (fst x) = D")
    case True
    then have x: "x = (b, cl)" and rest: "filter (\<lambda>kv. description (fst kv) = D) al = []"
      using Cons.prems by simp_all
    show ?thesis using x rest db by simp
  next
    case False
    then have "fst x \<noteq> b" using db by auto
    moreover have "filter (\<lambda>kv. description (fst kv) = D) al = [(b, cl)]"
      using Cons.prems False by simp
    ultimately show ?thesis using Cons.IH False by (cases x) simp
  qed
qed

lemma wrapProperty_backingCells_other:
  assumes "wrapProperty a q s = (Return u, s')" and "p \<noteq> q"
  shows "backingCells (objects s' a) p = backingCells (objects s a) p"
proof -
  from wrapProperty_Return[OF assms(1)] obtain c where
    sl: "slots (objects s' a)
         = AList.update (Symbol (nextSymbol s) (''__$$'' @ q)) c (slots (objects s a))"
    by blast
  have "description (Symbol (nextSymbol s) (''__$$'' @ q)) \<noteq> ''__$$'' @ p"
    using assms(2) by simp
  from described_update_other[OF this]
  show ?thesis
    unfolding backingCells_def sl .
qed

lemma wrapProperty_backingCells_new:
  assumes "wrapProperty a p s = (Return u, s')" and "backingCells (objects s a) p = []"
  shows "\<exists>x. backingCells (objects s' a) p = [x]"
proof -
  from wrapProperty_Return[OF assms(1)] obtain c where
    sl: "slots (objects s' a)
         = AList.update (Symbol (nextSymbol s) (''__$$'' @ p)) c (slots (objects s a))"
    by blast
  have "description (Symbol (nextSymbol s) (''__$$'' @ p)) = ''__$$'' @ p"
    by simp
  from described_update_new[OF assms(2)[unfolded backingCells_def] this]
  show ?thesis
    unfolding backingCells_def sl by blast
qed

lemma wrapProperties_backingCells_frame:
  "wrapProperties a ign ps s = (Return u, s') \<Longrightarrow> p \<notin> set ps \<or> p \<in> set ign \<Longrightarrow>
   backingCells (objects s' a) p = backingCells (objects s a) p"
proof (induction ps arbitrary: s)
  case Nil
  then show ?case by simp
next
  case (Cons q ps)
  show ?case
  proof (cases "q \<in> set ign")
    case True
    then have "wrapProperties a ign ps s = (Return u, s')"
      using Cons.prems(1) by simp
    moreover have "p \<notin> set ps \<or> p \<in> set ign"
      using Cons.prems(2) by auto
    ultimately show ?thesis by (rule Cons.IH)
  next
    case False
    then obtain u1 s1 where st: "wrapProperty a q s = (Return u1, s1)"
      and rest: "wrapProperties a ign ps s1 = (Return u, s')"
      using Cons.prems(1) by (auto split: prod.splits outcome.splits)
    have pq: "p \<noteq> q" using Cons.prems(2) False by auto
    have "p \<notin> set ps \<or> p \<in> set ign" using Cons.prems(2) by auto
    from Cons.IH[OF rest this] wrapProperty_backingCells_other[OF st pq]
    show ?thesis by simp
  qed
qed

lemma wrapProperties_backingCells_one:
  "wrapProperties a ign ps s = (Return u, s') \<Longrightarrow> distinct ps \<Longrightarrow> p \<in> set ps \<Longrightarrow>
   p \<notin> set ign \<Longrightarrow> backingCells (objects s a) p = [] \<Longrightarrow>
   \<exists>x. backingCells (objects s' a) p = [x]"
proof (induction ps arbitrary: s)
  case Nil
  then show ?case by simp
next
  case (Cons q ps)
  show ?case
  proof (cases "q \<in> set ign")
    case True
    then have "wrapProperties a ign ps s = (Return u, s')" "distinct ps" "p \<in> set ps"
      using Cons.prems by auto
    from Cons.IH[OF this Cons.prems(4) Cons.prems(5)] show ?thesis .
  next
    case False
    then obtain u1 s1 where st: "wrapProperty a q s = (Return u1, s1)"
      and rest: "wrapProperties a ign ps s1 = (Return u, s')"
      using Cons.prems(1) by (auto split: prod.splits outcome.splits)
    show ?thesis
    proof (cases "p = q")
      case True
      then have "p \<notin> set ps \<or> p \<in> set ign" using Cons.prems(2) by simp
      from wrapProperties_backingCells_frame[OF rest this]
        wrapProperty_backingCells_new[OF st[folded True] Cons.prems(5)]
      show ?thesis by simp
    next
      case False
      then have "wrapProperties a ign ps s1 = (Return u, s')" "distinct ps" "p \<in> set ps"
        using rest Cons.prems by auto
      moreover have "backingCells (objects s1 a) p = []"
        using wrapProperty_backingCells_other[OF st False] Cons.prems(5) by simp
      ultimately show ?thesis using Cons.IH Cons.prems(4) by blast
    qed
  qed
qed

lemma Observed_backingCells:
  assumes run: "Observed target args s = (Return this, s')"
    and super: "target args s = (Return this0, s1)"
    and names: "distinct (getOwnPropertyNames (objects s1 this0))"
    and own: "p \<in> set (getOwnPropertyNames (objects s1 this0))"
    and notign: "p \<notin> set (ignoreList s1)"
    and none: "backingCells (objects s1 this0) p = []"
  shows "\<exists>x. backingCells (objects s' this) p = [x]"
proof -
  from Observed_Return[OF run] super obtain u where
    t: "this = this0" and wp: "wrappingPass this s1 = (Return u, s')"
    by auto
  from wrappingPass_Return[OF wp] obtain s0 where
    w: "wrapProperties this (ignoreList s1) (getOwnPropertyNames (objects s1 this)) s0 = (Return u, s')"
    and eq: "objects s0 = objects s1"
    by blast
  have "distinct (getOwnPropertyNames (objects s1 this))" "p \<in> set (getOwnPropertyNames (objects s1 this))"
    "backingCells (objects s0 this) p = []"
    using names own none t eq by simp_all
  from wrapProperties_backingCells_one[OF w this(1) this(2) notign this(3)]
  show ?thesis .
qed

text \<open>
  The definitions that evaluate a construction on a concrete store.
\<close>

lemmas eval_defs =
  Observed_def Atom_def Car_def alloc_def emptyStore_def wrappingPass_def
  ignoredPropsOf_def getOwnPropertyNames_def isArrayIndex_def isDigit_def numericValue_def
  digitValue_def
  wrapProperty_def getOwnPropertyDescriptor_def plain_def newSymbol_def ref_def reactive_def
  defineSlot_def defineAccessor_def ignoreList_def ObservationIgnored_def Let_def

text \<open>
  Claim C3, as stated, fails in two places. The class that \<open>Observable\<close> returns for a class
  that \<open>Observable\<close> returned (a decorated class with a decorated ancestor, or the transform
  applied twice) constructs \<open>new Atom(5)\<close> with \<open>value\<close> reading \<open>undefined\<close>: the second
  pass finds the accessor pair of the first, whose descriptor has no \<open>value\<close>, and wraps
  \<open>undefined\<close>. And after an object is written to a scalar property, the property reads the
  engine's wrapper of the object, a reference of its own, not the object written.
\<close>

theorem observed_scalar_roundtrip_counterexample:
  "fst (Observed (Observed Atom) (Num 5) emptyStore) = Return 0
   \<and> jsGet 0 ''value'' (snd (Observed (Observed Atom) (Num 5) emptyStore)) = Undefined
   \<and> fst (Observed Atom (Num 5) (snd (alloc \<lparr>props = [], slots = []\<rparr> emptyStore))) = Return 1
   \<and> jsGet 1 ''value''
        (snd (Observed Atom (Num 5) (snd (alloc \<lparr>props = [], slots = []\<rparr> emptyStore))))
      = Num 5
   \<and> jsGet 1 ''value''
        (snd (jsSet 1 ''value'' (ObjRef 0)
          (snd (Observed Atom (Num 5) (snd (alloc \<lparr>props = [], slots = []\<rparr> emptyStore))))))
      = Proxy 0"
  by (simp add: eval_defs jsGet_def jsSet_def getter_def setter_def)

text \<open>
  Claim C3, amended. For an instance of a class that \<open>Observable\<close> returned, and a property
  \<open>p\<close> that is not ignored and is, when \<open>super(...args)\<close> returns, an own data property whose
  value \<open>v\<close> is a scalar (\<open>typeof v\<close> is not \<open>object\<close>): reading \<open>p\<close> right after the
  construction returns \<open>v\<close>; after writing any value \<open>v2\<close> to \<open>p\<close>, reading \<open>p\<close> returns
  \<open>toReactive v2\<close>, which is \<open>v2\<close> itself unless \<open>v2\<close> is a reference to a plain object, and
  is then the engine's wrapper of that object. The object has one property per name.
\<close>

theorem observed_scalar_roundtrip:
  assumes "Observable target ClassKind = Return cls"
    and "cls args s = (Return this, s')"
    and "target args s = (Return this0, s1)"
    and "distinct (getOwnPropertyNames (objects s1 this0))"
    and "getOwnPropertyDescriptor (objects s1 this0) p = Some (Data v w e c)"
    and "typeof v \<noteq> ''object''"
    and "p \<notin> set (ignoreList s1)"
  shows "jsGet this p s' = v
       \<and> (\<exists>s2. jsSet this p v2 s' = (Return (), s2)
                \<and> jsGet this p s2 = toReactive v2
                \<and> ((\<forall>a. v2 \<noteq> ObjRef a) \<longrightarrow> jsGet this p s2 = v2)
                \<and> (\<forall>a. v2 = ObjRef a \<longrightarrow> jsGet this p s2 = Proxy a))"
proof -
  have run: "Observed target args s = (Return this, s')"
    using assms(1,2) Observable_class by blast
  have own: "p \<in> set (getOwnPropertyNames (objects s1 this0))"
    using map_of_SomeD[of "props (objects s1 this0)" p] assms(5)
    by (force simp add: getOwnPropertyDescriptor_def set_getOwnPropertyNames)
  from Observed_wrapped[OF run assms(3) assms(4) own assms(7)]
  obtain d n cl where t: "this = this0"
    and d: "getOwnPropertyDescriptor (objects s1 this) p = Some d"
    and acc0: "map_of (props (objects s' this)) p
          = Some (Accessor (Symbol n (''__$$'' @ p)) (enumerable d) True)"
    and sl: "map_of (slots (objects s' this)) (Symbol n (''__$$'' @ p)) = Some cl"
    and ce0: "if typeof (descriptorValue d) = ''object'' \<or> descriptorValue d = Str ''undefined''
          then cl = Reactive (toReactive (descriptorValue d))
          else \<exists>r. cl = Ref r \<and> nextCell s1 \<le> r \<and> r < nextCell s'
                 \<and> cells s' r = toReactive (descriptorValue d)"
    by blast
  have dd: "d = Data v w e c"
    using d assms(5) t by simp
  have acc: "map_of (props (objects s' this)) p
          = Some (Accessor (Symbol n (''__$$'' @ p)) e True)"
    using acc0 unfolding dd by simp
  have tv: "toReactive v = v"
    using assms(6) by (rule toReactive_scalar)
  have ce: "if typeof v = ''object'' \<or> v = Str ''undefined''
          then cl = Reactive v
          else \<exists>r. cl = Ref r \<and> nextCell s1 \<le> r \<and> r < nextCell s' \<and> cells s' r = v"
    using ce0 unfolding dd by (simp add: tv cong: if_cong)
  have first: "jsGet this p s' = v"
    using acc sl ce by (auto simp add: jsGet_def getter_def Let_def split: if_splits)
  from accessor_roundtrip[OF acc, of v2] obtain s2 where
    s2: "jsSet this p v2 s' = (Return (), s2)" "jsGet this p s2 = toReactive v2"
    by blast
  have plain: "(\<forall>a. v2 \<noteq> ObjRef a) \<longrightarrow> jsGet this p s2 = v2"
    using s2(2) by (cases v2) simp_all
  have obj: "\<forall>a. v2 = ObjRef a \<longrightarrow> jsGet this p s2 = Proxy a"
    using s2(2) by simp
  show ?thesis
    using first s2 plain obj by blast
qed

theorem observed_scalar_roundtrip_witness:
  "jsGet 0 ''value'' (snd (Observed Atom (Num 5) emptyStore)) = Num 5
   \<and> fst (jsSet 0 ''value'' (Num 6) (snd (Observed Atom (Num 5) emptyStore))) = Return ()
   \<and> jsGet 0 ''value'' (snd (jsSet 0 ''value'' (Num 6) (snd (Observed Atom (Num 5) emptyStore))))
       = Num 6
   \<and> jsGet 0 ''value'' (snd (jsSet 0 ''value'' (ObjRef 7) (snd (Observed Atom (Num 5) emptyStore))))
       = Proxy 7"
proof -
  have 1: "Observable Atom ClassKind = Return (Observed Atom)"
    by (simp add: Observable_def)
  have 2: "Observed Atom (Num 5) emptyStore = (Return 0, snd (Observed Atom (Num 5) emptyStore))"
    by (simp add: eval_defs)
  have 3: "Atom (Num 5) emptyStore = (Return 0, snd (Atom (Num 5) emptyStore))"
    by (simp add: eval_defs)
  have 4: "distinct (getOwnPropertyNames (objects (snd (Atom (Num 5) emptyStore)) 0))"
    by (simp add: eval_defs)
  have 5: "getOwnPropertyDescriptor (objects (snd (Atom (Num 5) emptyStore)) 0) ''value''
           = Some (Data (Num 5) True True True)"
    by (simp add: eval_defs)
  have 6: "typeof (Num 5) \<noteq> ''object''"
    by simp
  have 7: "''value'' \<notin> set (ignoreList (snd (Atom (Num 5) emptyStore)))"
    by (simp add: eval_defs)
  from observed_scalar_roundtrip
      [where target = Atom and cls = "Observed Atom" and args = "Num 5" and s = emptyStore
         and this = 0 and s' = "snd (Observed Atom (Num 5) emptyStore)" and ?this0.0 = 0
         and ?s1.0 = "snd (Atom (Num 5) emptyStore)" and p = "''value''" and ?v2.0 = "Num 6",
       OF 1 2 3 4 5 6 7]
  have scalar: "jsGet 0 ''value'' (snd (Observed Atom (Num 5) emptyStore)) = Num 5
   \<and> fst (jsSet 0 ''value'' (Num 6) (snd (Observed Atom (Num 5) emptyStore))) = Return ()
   \<and> jsGet 0 ''value'' (snd (jsSet 0 ''value'' (Num 6) (snd (Observed Atom (Num 5) emptyStore))))
       = Num 6"
    by auto
  from observed_scalar_roundtrip
      [where target = Atom and cls = "Observed Atom" and args = "Num 5" and s = emptyStore
         and this = 0 and s' = "snd (Observed Atom (Num 5) emptyStore)" and ?this0.0 = 0
         and ?s1.0 = "snd (Atom (Num 5) emptyStore)" and p = "''value''" and ?v2.0 = "ObjRef 7",
       OF 1 2 3 4 5 6 7]
  have object: "jsGet 0 ''value''
      (snd (jsSet 0 ''value'' (ObjRef 7) (snd (Observed Atom (Num 5) emptyStore)))) = Proxy 7"
    by auto
  show ?thesis
    using scalar object by (simp only: simp_thms)
qed

text \<open>
  Claim C8, as stated, fails for a class with a decorated ancestor (or decorated twice):
  each pass makes a symbol and a cell of its own for \<open>value\<close>, so the instance that one
  construction returns has two backing cells for the property, the first still holding
  the initial value and the second, the one the property now reads, \<open>undefined\<close>.
\<close>

theorem observed_one_backing_cell_counterexample:
  "fst (Observed (Observed Atom) (Num 5) emptyStore) = Return 0
   \<and> backingCells (objects (snd (Observed (Observed Atom) (Num 5) emptyStore)) 0) ''value''
      = [(Symbol 0 ''__$$value'', Ref 0), (Symbol 1 ''__$$value'', Ref 1)]
   \<and> cells (snd (Observed (Observed Atom) (Num 5) emptyStore)) 0 = Num 5
   \<and> cells (snd (Observed (Observed Atom) (Num 5) emptyStore)) 1 = Undefined"
  by (simp add: eval_defs backingCells_def)

text \<open>
  Claim C8, amended. For an instance of a class that \<open>Observable\<close> returned, and an own
  property \<open>p\<close> that is not ignored and has no backing cell when \<open>super(...args)\<close> returns
  (the target is not itself a class that \<open>Observable\<close> returned): after the construction
  \<open>p\<close> is an accessor pair over a symbol made during the construction, and the backing cells
  of \<open>p\<close> are exactly one, the slot under that symbol. When the slot holds a ref cell (a
  scalar-backed property), the cell was made during the construction, and an assignment to
  \<open>p\<close> changes nothing but the value of that cell: the slot keeps the cell. When the slot
  holds what \<open>reactive\<close> returned (an object-backed property), an assignment replaces the
  content of the slot by \<open>reactive\<close> of the new value and changes nothing else; \<open>p\<close> still
  has exactly one backing cell. The object has one property per name.
\<close>

theorem observed_one_backing_cell:
  assumes "Observable target ClassKind = Return cls"
    and "cls args s = (Return this, s')"
    and "target args s = (Return this0, s1)"
    and "distinct (getOwnPropertyNames (objects s1 this0))"
    and "p \<in> set (getOwnPropertyNames (objects s1 this0))"
    and "p \<notin> set (ignoreList s1)"
    and "backingCells (objects s1 this0) p = []"
  shows "\<exists>n e cl.
      getOwnPropertyDescriptor (objects s' this) p
        = Some (Accessor (Symbol n (''__$$'' @ p)) e True)
    \<and> nextSymbol s1 \<le> n \<and> n < nextSymbol s'
    \<and> backingCells (objects s' this) p = [(Symbol n (''__$$'' @ p), cl)]
    \<and> (case cl of
          Ref r \<Rightarrow>
            nextCell s1 \<le> r \<and> r < nextCell s'
            \<and> (\<forall>v2. jsSet this p v2 s'
                   = (Return (), s'\<lparr>cells := (cells s')(r := toReactive v2)\<rparr>))
        | Reactive w \<Rightarrow>
            (\<forall>v2. jsSet this p v2 s' =
               (Return (),
                s'\<lparr>objects := (objects s')(this := (objects s' this)
                     \<lparr>slots := AList.update (Symbol n (''__$$'' @ p)) (reactive v2)
                                 (slots (objects s' this))\<rparr>)\<rparr>)
             \<and> backingCells (objects (snd (jsSet this p v2 s')) this) p
                 = [(Symbol n (''__$$'' @ p), reactive v2)]))"
proof -
  have run: "Observed target args s = (Return this, s')"
    using assms(1,2) Observable_class by blast
  from Observed_wrapped[OF run assms(3) assms(4) assms(5) assms(6)]
  obtain d n cl where t: "this = this0"
    and acc: "map_of (props (objects s' this)) p
          = Some (Accessor (Symbol n (''__$$'' @ p)) (enumerable d) True)"
    and n: "nextSymbol s1 \<le> n" "n < nextSymbol s'"
    and sl: "map_of (slots (objects s' this)) (Symbol n (''__$$'' @ p)) = Some cl"
    and ce: "if typeof (descriptorValue d) = ''object'' \<or> descriptorValue d = Str ''undefined''
          then cl = Reactive (toReactive (descriptorValue d))
          else \<exists>r. cl = Ref r \<and> nextCell s1 \<le> r \<and> r < nextCell s'
                 \<and> cells s' r = toReactive (descriptorValue d)"
    by blast
  from Observed_backingCells[OF run assms(3) assms(4) assms(5) assms(6) assms(7)]
  obtain x where x: "backingCells (objects s' this) p = [x]"
    by blast
  have "(Symbol n (''__$$'' @ p), cl) \<in> set (slots (objects s' this))"
    using sl by (rule map_of_SomeD)
  then have "(Symbol n (''__$$'' @ p), cl) \<in> set (backingCells (objects s' this) p)"
    by (simp add: backingCells_def)
  then have one: "backingCells (objects s' this) p = [(Symbol n (''__$$'' @ p), cl)]"
    using x by simp
  have setc: "case cl of
          Ref r \<Rightarrow>
            nextCell s1 \<le> r \<and> r < nextCell s'
            \<and> (\<forall>v2. jsSet this p v2 s'
                   = (Return (), s'\<lparr>cells := (cells s')(r := toReactive v2)\<rparr>))
        | Reactive w \<Rightarrow>
            (\<forall>v2. jsSet this p v2 s' =
               (Return (),
                s'\<lparr>objects := (objects s')(this := (objects s' this)
                     \<lparr>slots := AList.update (Symbol n (''__$$'' @ p)) (reactive v2)
                                 (slots (objects s' this))\<rparr>)\<rparr>)
             \<and> backingCells (objects (snd (jsSet this p v2 s')) this) p
                 = [(Symbol n (''__$$'' @ p), reactive v2)])"
  proof (cases cl)
    case (Reactive w)
    have upd: "\<And>v2. jsSet this p v2 s' =
               (Return (),
                s'\<lparr>objects := (objects s')(this := (objects s' this)
                     \<lparr>slots := AList.update (Symbol n (''__$$'' @ p)) (reactive v2)
                                 (slots (objects s' this))\<rparr>)\<rparr>)"
      using Reactive acc sl by (simp add: jsSet_def setter_def Let_def)
    have still: "\<And>v2. backingCells (objects (snd (jsSet this p v2 s')) this) p
                 = [(Symbol n (''__$$'' @ p), reactive v2)]"
      using described_update_same[OF one[unfolded backingCells_def]]
      by (simp add: upd backingCells_def)
    show ?thesis
      using Reactive upd still by simp
  next
    case (Ref r)
    then have "nextCell s1 \<le> r \<and> r < nextCell s'"
      using ce by (auto split: if_splits)
    then show ?thesis
      using Ref acc sl by (simp add: jsSet_def setter_def Let_def)
  qed
  show ?thesis
    using acc n one setc unfolding getOwnPropertyDescriptor_def by blast
qed

theorem observed_one_backing_cell_witness:
  "backingCells (objects (snd (Observed Atom (Num 5) emptyStore)) 0) ''value''
     = [(Symbol 0 ''__$$value'', Ref 0)]
   \<and> jsSet 0 ''value'' (Num 6) (snd (Observed Atom (Num 5) emptyStore))
     = (Return (),
        (snd (Observed Atom (Num 5) emptyStore))
          \<lparr>cells := (cells (snd (Observed Atom (Num 5) emptyStore)))(0 := Num 6)\<rparr>)
   \<and> backingCells
        (objects (snd (Observed Atom (ObjRef 0)
           (snd (alloc \<lparr>props = [], slots = []\<rparr> emptyStore)))) 1) ''value''
     = [(Symbol 0 ''__$$value'', Reactive (Proxy 0))]
   \<and> backingCells
        (objects (snd (jsSet 1 ''value'' (Num 6)
           (snd (Observed Atom (ObjRef 0)
              (snd (alloc \<lparr>props = [], slots = []\<rparr> emptyStore)))))) 1) ''value''
     = [(Symbol 0 ''__$$value'', Reactive (Num 6))]"
proof -
  let ?sA = "snd (Observed Atom (Num 5) emptyStore)"
  let ?st = "snd (alloc \<lparr>props = [], slots = []\<rparr> emptyStore)"
  let ?sB = "snd (Observed Atom (ObjRef 0) ?st)"
  have c: "Observable Atom ClassKind = Return (Observed Atom)"
    by (simp add: Observable_def)
  have a2: "Observed Atom (Num 5) emptyStore = (Return 0, ?sA)"
    by (simp add: eval_defs)
  have a3: "Atom (Num 5) emptyStore = (Return 0, snd (Atom (Num 5) emptyStore))"
    by (simp add: eval_defs)
  have a4: "distinct (getOwnPropertyNames (objects (snd (Atom (Num 5) emptyStore)) 0))"
    by (simp add: eval_defs)
  have a5: "''value'' \<in> set (getOwnPropertyNames (objects (snd (Atom (Num 5) emptyStore)) 0))"
    by (simp add: eval_defs)
  have a6: "''value'' \<notin> set (ignoreList (snd (Atom (Num 5) emptyStore)))"
    by (simp add: eval_defs)
  have a7: "backingCells (objects (snd (Atom (Num 5) emptyStore)) 0) ''value'' = []"
    by (simp add: eval_defs backingCells_def)
  have ca: "backingCells (objects ?sA 0) ''value'' = [(Symbol 0 ''__$$value'', Ref 0)]"
    by (simp add: eval_defs backingCells_def)
  from observed_one_backing_cell
      [where target = Atom and cls = "Observed Atom" and args = "Num 5" and s = emptyStore
         and this = 0 and s' = ?sA and ?this0.0 = 0
         and ?s1.0 = "snd (Atom (Num 5) emptyStore)" and p = "''value''",
       OF c a2 a3 a4 a5 a6 a7]
  obtain n cl where
    m: "backingCells (objects ?sA 0) ''value'' = [(Symbol n (''__$$'' @ ''value''), cl)]"
    and k: "case cl of
          Ref r \<Rightarrow>
            nextCell (snd (Atom (Num 5) emptyStore)) \<le> r \<and> r < nextCell ?sA
            \<and> (\<forall>v2. jsSet 0 ''value'' v2 ?sA
                   = (Return (), ?sA\<lparr>cells := (cells ?sA)(r := toReactive v2)\<rparr>))
        | Reactive w \<Rightarrow>
            (\<forall>v2. jsSet 0 ''value'' v2 ?sA =
               (Return (),
                ?sA\<lparr>objects := (objects ?sA)(0 := (objects ?sA 0)
                     \<lparr>slots := AList.update (Symbol n (''__$$'' @ ''value'')) (reactive v2)
                                 (slots (objects ?sA 0))\<rparr>)\<rparr>)
             \<and> backingCells (objects (snd (jsSet 0 ''value'' v2 ?sA)) 0) ''value''
                 = [(Symbol n (''__$$'' @ ''value''), reactive v2)])"
    by blast
  have "cl = Ref 0"
    using m unfolding ca by simp
  then have ra: "jsSet 0 ''value'' (Num 6) ?sA
      = (Return (), ?sA\<lparr>cells := (cells ?sA)(0 := Num 6)\<rparr>)"
    using k by simp
  have b2: "Observed Atom (ObjRef 0) ?st = (Return 1, ?sB)"
    by (simp add: eval_defs)
  have b3: "Atom (ObjRef 0) ?st = (Return 1, snd (Atom (ObjRef 0) ?st))"
    by (simp add: eval_defs)
  have b4: "distinct (getOwnPropertyNames (objects (snd (Atom (ObjRef 0) ?st)) 1))"
    by (simp add: eval_defs)
  have b5: "''value'' \<in> set (getOwnPropertyNames (objects (snd (Atom (ObjRef 0) ?st)) 1))"
    by (simp add: eval_defs)
  have b6: "''value'' \<notin> set (ignoreList (snd (Atom (ObjRef 0) ?st)))"
    by (simp add: eval_defs)
  have b7: "backingCells (objects (snd (Atom (ObjRef 0) ?st)) 1) ''value'' = []"
    by (simp add: eval_defs backingCells_def)
  have cb: "backingCells (objects ?sB 1) ''value''
            = [(Symbol 0 ''__$$value'', Reactive (Proxy 0))]"
    by (simp add: eval_defs backingCells_def)
  from observed_one_backing_cell
      [where target = Atom and cls = "Observed Atom" and args = "ObjRef 0" and s = ?st
         and this = 1 and s' = ?sB and ?this0.0 = 1
         and ?s1.0 = "snd (Atom (ObjRef 0) ?st)" and p = "''value''",
       OF c b2 b3 b4 b5 b6 b7]
  obtain n' cl' where
    m': "backingCells (objects ?sB 1) ''value'' = [(Symbol n' (''__$$'' @ ''value''), cl')]"
    and k': "case cl' of
          Ref r \<Rightarrow>
            nextCell (snd (Atom (ObjRef 0) ?st)) \<le> r \<and> r < nextCell ?sB
            \<and> (\<forall>v2. jsSet 1 ''value'' v2 ?sB
                   = (Return (), ?sB\<lparr>cells := (cells ?sB)(r := toReactive v2)\<rparr>))
        | Reactive w \<Rightarrow>
            (\<forall>v2. jsSet 1 ''value'' v2 ?sB =
               (Return (),
                ?sB\<lparr>objects := (objects ?sB)(1 := (objects ?sB 1)
                     \<lparr>slots := AList.update (Symbol n' (''__$$'' @ ''value'')) (reactive v2)
                                 (slots (objects ?sB 1))\<rparr>)\<rparr>)
             \<and> backingCells (objects (snd (jsSet 1 ''value'' v2 ?sB)) 1) ''value''
                 = [(Symbol n' (''__$$'' @ ''value''), reactive v2)])"
    by blast
  have e: "n' = 0" "cl' = Reactive (Proxy 0)"
    using m' unfolding cb by simp_all
  have "backingCells (objects (snd (jsSet 1 ''value'' (Num 6) ?sB)) 1) ''value''
      = [(Symbol 0 (''__$$'' @ ''value''), reactive (Num 6))]"
    using k'[unfolded e cell.case, THEN spec, of "Num 6"] by (rule conjunct2)
  then have rb: "backingCells (objects (snd (jsSet 1 ''value'' (Num 6) ?sB)) 1) ''value''
      = [(Symbol 0 ''__$$value'', Reactive (Num 6))]"
    by (simp add: reactive_def)
  show ?thesis
    using ca ra cb rb by (simp only: simp_thms)
qed

text \<open>
  Claim C4. A property whose name is in the ignore list of the class keeps the descriptor
  it had when \<open>super(...args)\<close> returned (it is not redefined as an accessor pair), the
  pass creates no hidden slot \<open>__$$p\<close> for it, and an assignment to it, when it is a writable
  data property, only replaces its value in place: no slot and no cell is involved.
\<close>

theorem ignored_property_untouched:
  assumes "Observable target ClassKind = Return cls"
    and "cls args s = (Return this, s')"
    and "target args s = (Return this0, s1)"
    and "p \<in> set (ignoreList s1)"
  shows "getOwnPropertyDescriptor (objects s' this) p = getOwnPropertyDescriptor (objects s1 this) p
    \<and> (\<forall>n. Symbol n (''__$$'' @ p) \<in> fst ` set (slots (objects s' this)) \<longrightarrow>
             Symbol n (''__$$'' @ p) \<in> fst ` set (slots (objects s1 this)))
    \<and> (\<forall>v0 e c v2. getOwnPropertyDescriptor (objects s1 this) p = Some (Data v0 True e c) \<longrightarrow>
          jsSet this p v2 s' =
            (Return (),
             s'\<lparr>objects := (objects s')(this := (objects s' this)
                  \<lparr>props := AList.update p (Data v2 True e c) (props (objects s' this))\<rparr>)\<rparr>)
          \<and> jsGet this p (snd (jsSet this p v2 s')) = v2)"
proof -
  have run: "Observed target args s = (Return this, s')"
    using assms(1,2) Observable_class by blast
  from Observed_Return[OF run] assms(3) obtain u where
    t: "this = this0" and wp: "wrappingPass this s1 = (Return u, s')"
    by auto
  from wrappingPass_Return[OF wp] obtain s0 where
    w: "wrapProperties this (ignoreList s1) (getOwnPropertyNames (objects s1 this)) s0 = (Return u, s')"
    and eq: "objects s0 = objects s1"
    by blast
  have same: "map_of (props (objects s' this)) p = map_of (props (objects s1 this)) p"
    using wrapProperties_frame[OF w] assms(4) eq by simp
  have noslot: "\<forall>n. Symbol n (''__$$'' @ p) \<in> fst ` set (slots (objects s' this)) \<longrightarrow>
             Symbol n (''__$$'' @ p) \<in> fst ` set (slots (objects s1 this))"
  proof (intro allI impI)
    fix n assume "Symbol n (''__$$'' @ p) \<in> fst ` set (slots (objects s' this))"
    from wrapProperties_slot_keys[OF w this] assms(4)
    show "Symbol n (''__$$'' @ p) \<in> fst ` set (slots (objects s1 this))"
      using eq by auto
  qed
  have plainly: "\<forall>v0 e c v2. getOwnPropertyDescriptor (objects s1 this) p = Some (Data v0 True e c) \<longrightarrow>
          jsSet this p v2 s' =
            (Return (),
             s'\<lparr>objects := (objects s')(this := (objects s' this)
                  \<lparr>props := AList.update p (Data v2 True e c) (props (objects s' this))\<rparr>)\<rparr>)
          \<and> jsGet this p (snd (jsSet this p v2 s')) = v2"
    using same by (simp add: getOwnPropertyDescriptor_def jsSet_def jsGet_def update_conv')
  show ?thesis
    using same noslot plainly unfolding getOwnPropertyDescriptor_def by blast
qed

theorem ignored_property_untouched_witness:
  "ignoreList (snd (ObservationIgnored (StringName ''needsRepairs'') emptyStore)) = [''needsRepairs'']
   \<and> fst (Observed Car (Str ''kit'', Undefined)
        (snd (ObservationIgnored (StringName ''needsRepairs'') emptyStore))) = Return 0
   \<and> objects (snd (Observed Car (Str ''kit'', Undefined)
        (snd (ObservationIgnored (StringName ''needsRepairs'') emptyStore)))) 0
      = \<lparr>props = [(''name'', Accessor (Symbol 0 ''__$$name'') True True),
                  (''needsRepairs'', Data (Bool False) True True True)],
         slots = [(Symbol 0 ''__$$name'', Ref 0)]\<rparr>
   \<and> jsGet 0 ''needsRepairs''
        (snd (jsSet 0 ''needsRepairs'' (Bool True)
          (snd (Observed Car (Str ''kit'', Undefined)
            (snd (ObservationIgnored (StringName ''needsRepairs'') emptyStore))))))
      = Bool True"
proof -
  let ?s = "snd (ObservationIgnored (StringName ''needsRepairs'') emptyStore)"
  let ?s1 = "snd (Car (Str ''kit'', Undefined) ?s)"
  let ?s' = "snd (Observed Car (Str ''kit'', Undefined) ?s)"
  have 1: "Observable Car ClassKind = Return (Observed Car)"
    by (simp add: Observable_def)
  have 2: "Observed Car (Str ''kit'', Undefined) ?s = (Return 0, ?s')"
    by (simp add: eval_defs)
  have 3: "Car (Str ''kit'', Undefined) ?s = (Return 0, ?s1)"
    by (simp add: eval_defs)
  have 4: "''needsRepairs'' \<in> set (ignoreList ?s1)"
    by (simp add: eval_defs)
  have 5: "getOwnPropertyDescriptor (objects ?s1 0) ''needsRepairs''
           = Some (Data (Bool False) True True True)"
    by (simp add: eval_defs)
  have ob: "objects ?s' 0
      = \<lparr>props = [(''name'', Accessor (Symbol 0 ''__$$name'') True True),
                  (''needsRepairs'', Data (Bool False) True True True)],
         slots = [(Symbol 0 ''__$$name'', Ref 0)]\<rparr>"
    by (simp add: eval_defs)
  have il: "ignoreList ?s = [''needsRepairs'']"
    by (simp add: eval_defs)
  note plainly = ignored_property_untouched
      [where target = Car and cls = "Observed Car" and args = "(Str ''kit'', Undefined)"
         and s = ?s and this = 0 and s' = ?s' and ?this0.0 = 0 and ?s1.0 = ?s1
         and p = "''needsRepairs''",
       OF 1 2 3 4, THEN conjunct2, THEN conjunct2,
       rule_format, OF 5, THEN conjunct2, of "Bool True"]
  have r: "fst (Observed Car (Str ''kit'', Undefined) ?s) = Return 0"
    by (simp add: eval_defs)
  show ?thesis
    using r ob il plainly by (simp only: simp_thms)
qed

text \<open>
  Claim C7. \<open>ObservationIgnored\<close> on a symbol-named member throws \<open>InvalidPropertyKind\<close>
  and leaves the store, so the ignore list, as it was; \<open>Observable\<close> on anything but a class
  throws \<open>InvalidTargetKind\<close> and returns no class.
\<close>

theorem decorators_reject:
  "ObservationIgnored (SymbolName b) s = (Throw InvalidPropertyKind, s)
   \<and> (kind \<noteq> ClassKind \<longrightarrow> Observable target kind = Throw InvalidTargetKind)"
  by (simp add: ObservationIgnored_def Observable_def)

theorem decorators_reject_witness:
  "ObservationIgnored (SymbolName (Symbol 3 ''tag'')) emptyStore = (Throw InvalidPropertyKind, emptyStore)
   \<and> FieldKind \<noteq> ClassKind \<and> Observable Atom FieldKind = Throw InvalidTargetKind
   \<and> Observable Atom MethodKind = Throw InvalidTargetKind
   \<and> Observable Atom AccessorKind = Throw InvalidTargetKind"
  using decorators_reject[of "Symbol 3 ''tag''" emptyStore FieldKind Atom]
    decorators_reject[of "Symbol 3 ''tag''" emptyStore MethodKind Atom]
    decorators_reject[of "Symbol 3 ''tag''" emptyStore AccessorKind Atom]
  by simp

text \<open>
  Claim C1 on the code: \<open>bindable\<close> of an object with the single own property \<open>name\<close>,
  of value \<open>X\<close>. The object gets the property \<open>0\<close>, which holds the object that has the
  property \<open>$name\<close>; the object itself has no property \<open>$name\<close>, and \<open>obj.$name.get()\<close>
  throws a \<open>TypeError\<close>. The binding does forward: \<open>obj[0].$name.get()\<close> returns \<open>X\<close>.
  The names of the object are then listed with the index first.
\<close>

theorem bindable_adds_index_properties:
  "fst (bindable 0 (snd (alloc \<lparr>props = [(''name'', plain (Str ''X''))], slots = []\<rparr> emptyStore)))
     = Return (ObjRef 0)
   \<and> getOwnPropertyNames
        (objects (snd (bindable 0
           (snd (alloc \<lparr>props = [(''name'', plain (Str ''X''))], slots = []\<rparr> emptyStore)))) 0)
      = [''0'', ''name'']
   \<and> jsGet 0 ''$name'' (snd (bindable 0
           (snd (alloc \<lparr>props = [(''name'', plain (Str ''X''))], slots = []\<rparr> emptyStore))))
      = Undefined
   \<and> fst (callMethod
            (jsGet 0 ''$name'' (snd (bindable 0
               (snd (alloc \<lparr>props = [(''name'', plain (Str ''X''))], slots = []\<rparr> emptyStore)))))
            ''get'' []
            (snd (bindable 0
               (snd (alloc \<lparr>props = [(''name'', plain (Str ''X''))], slots = []\<rparr> emptyStore)))))
      = Throw TypeError
   \<and> jsGet 0 ''0'' (snd (bindable 0
           (snd (alloc \<lparr>props = [(''name'', plain (Str ''X''))], slots = []\<rparr> emptyStore))))
      = ObjRef 3
   \<and> fst (callMethod
            (jsGet 3 ''$name'' (snd (bindable 0
               (snd (alloc \<lparr>props = [(''name'', plain (Str ''X''))], slots = []\<rparr> emptyStore)))))
            ''get'' []
            (snd (bindable 0
               (snd (alloc \<lparr>props = [(''name'', plain (Str ''X''))], slots = []\<rparr> emptyStore)))))
      = Return (Str ''X'')"
  by (simp add: eval_defs bindable_def bindingFor_def Binding_def arrayObject_def
      Object_assign_def jsGet_def jsSet_def getter_def setter_def Let_def decimal.simps)

text \<open>
  Claim C2 on the code: \<open>new Atom(undefined)\<close>, with \<open>Atom\<close> the class that \<open>Observable\<close>
  returns. The slot of \<open>value\<close> holds a ref cell, whose value is \<open>undefined\<close>, not a reactive
  wrapper: the test \<open>initialValue.value === "undefined"\<close> compares with the string. It is
  the string \<open>"undefined"\<close> that gets the wrapper.
\<close>

theorem undefined_initial_value_gets_ref:
  "fst (Observed Atom Undefined emptyStore) = Return 0
   \<and> slots (objects (snd (Observed Atom Undefined emptyStore)) 0)
      = [(Symbol 0 ''__$$value'', Ref 0)]
   \<and> cells (snd (Observed Atom Undefined emptyStore)) 0 = Undefined
   \<and> slots (objects (snd (Observed Atom (Str ''undefined'') emptyStore)) 0)
      = [(Symbol 0 ''__$$value'', Reactive (Str ''undefined''))]"
  by (simp add: eval_defs)

end
